theory Spec2Isabelle
  imports Complex_Main "HOL-Library.Word"
begin

unbundle bit_operations_syntax

section \<open>Base.equals (src/core/Base.js)\<close>

text \<open>
  JavaScript values as far as \<open>Base.equals\<close> inspects them.  Arrays and plain objects
  carry the identity of the object (a number standing for its address), because \<open>==\<close> on two
  objects compares identities, not contents.  A property key is either an array index or a
  name.  \<open>Number n\<close> is the number with the integer value \<open>n\<close>.  \<open>Builtin f\<close> is the
  built-in function that an object finds on its prototype under the path \<open>f\<close>, such as
  \<open>Object.prototype.toString\<close>.  The own properties of arrays and objects hold data: a
  built-in function is met only where a property is read that the object inherits.
\<close>

datatype key = Index nat | Name string

datatype jsval =
    Undefined
  | Null
  | Boolean bool
  | Number int
  | String string
  | Array nat "jsval list"
  | Object nat "(key \<times> jsval) list"
  | Builtin string

datatype js_error = TypeError

fun nullish :: "jsval \<Rightarrow> bool" where
  "nullish Undefined = True"
| "nullish Null = True"
| "nullish _ = False"

fun isArray :: "jsval \<Rightarrow> bool" where
  "isArray (Array a xs) = True"
| "isArray _ = False"

text \<open>\<open>typeof v === 'object'\<close>: true of null, arrays and objects, false of functions.\<close>

fun typeof_object :: "jsval \<Rightarrow> bool" where
  "typeof_object Null = True"
| "typeof_object (Array a xs) = True"
| "typeof_object (Object a ps) = True"
| "typeof_object _ = False"

fun truthy :: "jsval \<Rightarrow> bool" where
  "truthy Undefined = False"
| "truthy Null = False"
| "truthy (Boolean b) = b"
| "truthy (Number n) = (n \<noteq> 0)"
| "truthy (String s) = (s \<noteq> [])"
| "truthy _ = True"

text \<open>
  The integers up to \<open>2\<^sup>5\<^sup>3\<close> in size are numbers of JavaScript one by one; beyond them
  several integers share one double.
\<close>

definition safe_integer :: "int \<Rightarrow> bool" where
  "safe_integer n = (- (2 ^ 53) \<le> n \<and> n \<le> 2 ^ 53)"

text \<open>What tells two objects apart: the address of an array or object, the path of a built-in.\<close>

fun identity :: "jsval \<Rightarrow> (nat + string) option" where
  "identity (Array a xs) = Some (Inl a)"
| "identity (Object a ps) = Some (Inl a)"
| "identity (Builtin f) = Some (Inr f)"
| "identity _ = None"

text \<open>
  \<open>obj1 == obj2\<close>.  Two objects are equal when they are the same object; null and undefined
  equal each other and nothing else; primitives of one type compare by value.  The
  remaining comparisons convert their operands first (ToNumber, ToPrimitive) or compare
  doubles beyond the integers that are numbers one by one; their outcome is the parameter
  \<open>coerce\<close>.
\<close>

fun loose_eq :: "(jsval \<Rightarrow> jsval \<Rightarrow> bool) \<Rightarrow> jsval \<Rightarrow> jsval \<Rightarrow> bool" where
  "loose_eq coerce (Boolean x) (Boolean y) = (x = y)"
| "loose_eq coerce (Number x) (Number y) =
     (if safe_integer x \<and> safe_integer y then x = y else coerce (Number x) (Number y))"
| "loose_eq coerce (String x) (String y) = (x = y)"
| "loose_eq coerce v w =
     (case (identity v, identity w) of
        (Some a, Some b) \<Rightarrow> a = b
      | _ \<Rightarrow> if nullish v \<or> nullish w then nullish v \<and> nullish w else coerce v w)"

text \<open>The keys that \<open>for (var i in o)\<close> visits: the own enumerable properties.\<close>

fun own_keys :: "jsval \<Rightarrow> key list" where
  "own_keys (Array a xs) = map Index [0..<length xs]"
| "own_keys (Object a ps) = map fst ps"
| "own_keys _ = []"

text \<open>
  The properties that every object inherits from \<open>Object.prototype\<close> and every array from
  \<open>Array.prototype\<close>, as ECMAScript 5 lists them.  What an engine adds to them is not
  modelled.
\<close>

definition object_prototype :: "string list" where
  "object_prototype =
     [''constructor'', ''toString'', ''toLocaleString'', ''valueOf'', ''hasOwnProperty'',
      ''isPrototypeOf'', ''propertyIsEnumerable'']"

definition array_prototype :: "string list" where
  "array_prototype =
     [''constructor'', ''toString'', ''toLocaleString'', ''concat'', ''join'', ''pop'', ''push'',
      ''reverse'', ''shift'', ''slice'', ''sort'', ''splice'', ''unshift'', ''indexOf'',
      ''lastIndexOf'', ''every'', ''some'', ''forEach'', ''map'', ''filter'', ''reduce'',
      ''reduceRight'']"

fun inherited_object :: "key \<Rightarrow> jsval" where
  "inherited_object (Name s) =
     (if s \<in> set object_prototype then Builtin (''Object.prototype.'' @ s) else Undefined)"
| "inherited_object (Index i) = Undefined"

fun inherited_array :: "key \<Rightarrow> jsval" where
  "inherited_array (Name s) =
     (if s \<in> set array_prototype then Builtin (''Array.prototype.'' @ s)
      else inherited_object (Name s))"
| "inherited_array (Index i) = Undefined"

text \<open>
  \<open>o[i]\<close>: an own property first, then an inherited one; reading a property of null or
  undefined throws.  Of a primitive or a function \<open>Base.equals\<close> reads only \<open>equals\<close>,
  which no built-in prototype defines.
\<close>

fun get_prop :: "jsval \<Rightarrow> key \<Rightarrow> js_error + jsval" where
  "get_prop Undefined k = Inl TypeError"
| "get_prop Null k = Inl TypeError"
| "get_prop (Array a xs) (Index i) = Inr (if i < length xs then xs ! i else Undefined)"
| "get_prop (Array a xs) (Name s) =
     Inr (if s = ''length'' then Number (int (length xs)) else inherited_array (Name s))"
| "get_prop (Object a ps) k =
     Inr (case map_of ps k of None \<Rightarrow> inherited_object k | Some v \<Rightarrow> v)"
| "get_prop _ k = Inr Undefined"

text \<open>
  The call \<open>o1.hasOwnProperty(i)\<close>.  The method is looked up like any property: an own
  property of that name hides the inherited function, and calling a value that is no
  function throws.
\<close>

definition hasOwnProperty_call :: "jsval \<Rightarrow> key \<Rightarrow> js_error + bool" where
  "hasOwnProperty_call o1 i =
     (case get_prop o1 (Name ''hasOwnProperty'') of
        Inl e \<Rightarrow> Inl e
      | Inr f \<Rightarrow>
          if f = Builtin ''Object.prototype.hasOwnProperty'' then Inr (i \<in> set (own_keys o1))
          else Inl TypeError)"

text \<open>The inner function \<open>checkKeys(o1, o2)\<close>, its loop running over the listed keys.\<close>

fun checkKeys_loop :: "key list \<Rightarrow> jsval \<Rightarrow> jsval \<Rightarrow> js_error + bool" where
  "checkKeys_loop [] o1 o2 = Inr True"
| "checkKeys_loop (i # ks) o1 o2 =
     (case hasOwnProperty_call o1 i of
        Inl e \<Rightarrow> Inl e
      | Inr own \<Rightarrow>
          if \<not> own then checkKeys_loop ks o1 o2
          else
            (case get_prop o2 i of
               Inl e \<Rightarrow> Inl e
             | Inr v \<Rightarrow> if v = Undefined then Inr False else checkKeys_loop ks o1 o2))"

definition checkKeys :: "jsval \<Rightarrow> jsval \<Rightarrow> js_error + bool" where
  "checkKeys o1 o2 = checkKeys_loop (own_keys o1) o1 o2"

text \<open>
  The array loop \<open>for (var i = 0, l = obj1.length; i < l; i++) if (!Base.equals(obj1, obj2))
  return false;\<close>.  The recursive call is the parameter \<open>rec\<close>; it receives the two arrays
  themselves, as the source writes it, and not their elements.  A result \<open>None\<close> stands
  for a call that does not return.
\<close>

function array_loop ::
  "(jsval \<Rightarrow> jsval \<Rightarrow> (js_error + bool) option) \<Rightarrow> jsval \<Rightarrow> jsval \<Rightarrow> nat \<Rightarrow> nat
     \<Rightarrow> (js_error + bool) option" where
  "array_loop rec obj1 obj2 i l =
     (if i < l then
        (case rec obj1 obj2 of
           None \<Rightarrow> None
         | Some (Inl e) \<Rightarrow> Some (Inl e)
         | Some (Inr b) \<Rightarrow> if \<not> b then Some (Inr False) else array_loop rec obj1 obj2 (i + 1) l)
      else Some (Inr True))"
  by pat_completeness auto
termination
  by (relation "measure (\<lambda>(rec, obj1, obj2, i, l). l - i)") auto

text \<open>
  The object loop \<open>for (var i in obj1) if (obj1.hasOwnProperty(i) && !Base.equals(obj1[i],
  obj2[i])) return false;\<close>.
\<close>

fun object_loop ::
  "(jsval \<Rightarrow> jsval \<Rightarrow> (js_error + bool) option) \<Rightarrow> key list \<Rightarrow> jsval \<Rightarrow> jsval
     \<Rightarrow> (js_error + bool) option" where
  "object_loop rec [] obj1 obj2 = Some (Inr True)"
| "object_loop rec (i # ks) obj1 obj2 =
     (case hasOwnProperty_call obj1 i of
        Inl e \<Rightarrow> Some (Inl e)
      | Inr own \<Rightarrow>
          if \<not> own then object_loop rec ks obj1 obj2
          else
            (case get_prop obj1 i of
               Inl e \<Rightarrow> Some (Inl e)
             | Inr v1 \<Rightarrow>
                (case get_prop obj2 i of
                   Inl e \<Rightarrow> Some (Inl e)
                 | Inr v2 \<Rightarrow>
                    (case rec v1 v2 of
                       None \<Rightarrow> None
                     | Some (Inl e) \<Rightarrow> Some (Inl e)
                     | Some (Inr b) \<Rightarrow>
                         if \<not> b then Some (Inr False) else object_loop rec ks obj1 obj2))))"

text \<open>\<open>obj != null && obj.equals\<close>, the test that guards the call of a custom method.\<close>

definition has_equals :: "jsval \<Rightarrow> bool" where
  "has_equals obj =
     (\<not> nullish obj \<and> (case get_prop obj (Name ''equals'') of Inl e \<Rightarrow> False | Inr v \<Rightarrow> truthy v))"

fun js_length :: "jsval \<Rightarrow> nat" where
  "js_length (Array a xs) = length xs"
| "js_length _ = 0"

text \<open>
  The body of \<open>Base.equals(obj1, obj2)\<close> with its recursive calls going to \<open>rec\<close>.  An own
  property \<open>equals\<close> holds data, which is not callable, so where the source calls a truthy
  \<open>equals\<close> property the call throws.
\<close>

definition equals_body ::
  "(jsval \<Rightarrow> jsval \<Rightarrow> bool) \<Rightarrow> (jsval \<Rightarrow> jsval \<Rightarrow> (js_error + bool) option)
     \<Rightarrow> jsval \<Rightarrow> jsval \<Rightarrow> (js_error + bool) option" where
  "equals_body coerce rec obj1 obj2 =
     (if loose_eq coerce obj1 obj2 then Some (Inr True)
      else if has_equals obj1 then Some (Inl TypeError)
      else if has_equals obj2 then Some (Inl TypeError)
      else if isArray obj1 \<and> isArray obj2 then
        (if js_length obj1 \<noteq> js_length obj2 then Some (Inr False)
         else array_loop rec obj1 obj2 0 (js_length obj1))
      else if typeof_object obj1 \<and> typeof_object obj2 then
        (case checkKeys obj1 obj2 of
           Inl e \<Rightarrow> Some (Inl e)
         | Inr c1 \<Rightarrow>
            if \<not> c1 then Some (Inr False)
            else
              (case checkKeys obj2 obj1 of
                 Inl e \<Rightarrow> Some (Inl e)
               | Inr c2 \<Rightarrow>
                  if \<not> c2 then Some (Inr False)
                  else object_loop rec (own_keys obj1) obj1 obj2))
      else Some (Inr False))"

text \<open>
  \<open>Base.equals\<close> itself.  The first argument bounds the depth of nested calls: with depth
  \<open>n\<close> exhausted the result is \<open>None\<close>.  The call returns exactly when some depth yields
  \<open>Some\<close>.
\<close>

primrec Base_equals ::
  "(jsval \<Rightarrow> jsval \<Rightarrow> bool) \<Rightarrow> nat \<Rightarrow> jsval \<Rightarrow> jsval \<Rightarrow> (js_error + bool) option" where
  "Base_equals coerce 0 = (\<lambda>obj1 obj2. None)"
| "Base_equals coerce (Suc n) = equals_body coerce (Base_equals coerce n)"

section \<open>Base.splice (src/core/Base.js)\<close>

text \<open>
  The entries of a child list are objects, each with a private \<open>_index\<close> property that
  \<open>Base.splice\<close> writes and deletes.  The same object may be passed in \<open>items\<close> and be
  present in the list, so objects are references and their \<open>_index\<close> properties live in a
  store: \<open>h a\<close> is the \<open>_index\<close> of object \<open>a\<close>, \<open>None\<close> when it has none.
\<close>

type_synonym ref = nat
type_synonym heap = "ref \<Rightarrow> int option"

text \<open>The argument \<open>items\<close>: undefined, null, or an array of objects.\<close>

datatype items_arg = ItemsUndefined | ItemsNull | Items "ref list"

fun items_list :: "items_arg \<Rightarrow> ref list" where
  "items_list (Items xs) = xs"
| "items_list _ = []"

text \<open>
  \<open>amount = items && items.length\<close> as a number: \<open>undefined\<close> makes every comparison false
  and every sum NaN (\<open>None\<close>); \<open>null\<close> counts as 0 in \<open>i < amount\<close> and \<open>index + amount\<close>.
\<close>

fun amount_of :: "items_arg \<Rightarrow> int option" where
  "amount_of ItemsUndefined = None"
| "amount_of ItemsNull = Some 0"
| "amount_of (Items xs) = Some (int (length xs))"

text \<open>
  The built-in \<open>Array.prototype.splice(start, deleteCount, ...items)\<close>: a negative start
  counts from the end, both numbers are clamped to the array.  The result is the array
  afterwards and the array of removed elements.
\<close>

definition js_splice :: "'a list \<Rightarrow> int \<Rightarrow> int \<Rightarrow> 'a list \<Rightarrow> 'a list \<times> 'a list" where
  "js_splice list start deleteCount items =
     (let len = int (length list);
          actualStart = (if start < 0 then max (len + start) 0 else min start len);
          actualDeleteCount = min (max deleteCount 0) (len - actualStart);
          s = nat actualStart;
          d = nat actualDeleteCount
      in (take s list @ items @ drop (s + d) list, take d (drop s list)))"

text \<open>\<open>for (var i = 0; i < amount; i++) items[i]._index = index + i;\<close> with \<open>k = index + i\<close>.\<close>

fun set_indices :: "heap \<Rightarrow> ref list \<Rightarrow> int \<Rightarrow> heap" where
  "set_indices h [] k = h"
| "set_indices h (a # as) k = set_indices (h(a := Some k)) as (k + 1)"

text \<open>\<open>for (var i = 0, l = removed.length; i < l; i++) delete removed[i]._index;\<close>\<close>

fun delete_indices :: "heap \<Rightarrow> ref list \<Rightarrow> heap" where
  "delete_indices h [] = h"
| "delete_indices h (a # as) = delete_indices (h(a := None)) as"

text \<open>
  \<open>for (var i = index + amount, l = list.length; i < l; i++) list[i]._index = i;\<close>
  At a negative \<open>i\<close> the element \<open>list[i]\<close> is undefined and the assignment throws.
\<close>

function adjust_indices :: "heap \<Rightarrow> ref list \<Rightarrow> int \<Rightarrow> js_error + heap" where
  "adjust_indices h list i =
     (if i < int (length list) then
        (if i < 0 then Inl TypeError
         else adjust_indices (h(list ! nat i := Some i)) list (i + 1))
      else Inr h)"
  by pat_completeness auto
termination
  by (relation "measure (\<lambda>(h, list, i). nat (int (length list) - i))") auto

declare adjust_indices.simps [simp del]

text \<open>
  \<open>Base.splice(list, items, index, remove)\<close>.  \<open>index\<close> and \<open>remove\<close> are integers or
  undefined (\<open>None\<close>).  The result is the store, the list as the call leaves it, and the
  returned array.
\<close>

definition Base_splice ::
  "heap \<Rightarrow> ref list \<Rightarrow> items_arg \<Rightarrow> int option \<Rightarrow> int option
     \<Rightarrow> js_error + (heap \<times> ref list \<times> ref list)" where
  "Base_splice h list items index remove =
     (let amount = amount_of items;
          append = (index = None);
          idx = (case index of None \<Rightarrow> int (length list) | Some i \<Rightarrow> i);
          h1 = set_indices h (items_list items) idx
      in if append then Inr (h1, list @ items_list items, [])
         else
           (let (list', removed) =
                  js_splice list idx (case remove of None \<Rightarrow> 0 | Some r \<Rightarrow> r) (items_list items);
                h2 = delete_indices h1 removed
            in case amount of
                 None \<Rightarrow> Inr (h2, list', removed)
               | Some a \<Rightarrow>
                  (case adjust_indices h2 list' (idx + a) of
                     Inl e \<Rightarrow> Inl e
                   | Inr h3 \<Rightarrow> Inr (h3, list', removed))))"

text \<open>The index invariant of a child list: the element at position \<open>i\<close> has \<open>_index = i\<close>.\<close>

definition indexed :: "heap \<Rightarrow> ref list \<Rightarrow> bool" where
  "indexed h list = (map h list = map (\<lambda>i. Some (int i)) [0..<length list])"

text \<open>A store for the examples: object 10 at position 0 and object 11 at position 1.\<close>

definition heap2 :: heap where
  "heap2 = (\<lambda>a. None)(10 := Some 0, 11 := Some 1)"

section \<open>Group: clip items, change notification and drawing\<close>

text \<open>
  The sources hold two versions of \<open>Group.js\<close>.  Their \<open>_changed\<close>, \<open>_getClipItems\<close>,
  \<open>isClipped\<close> and \<open>setClipped\<close> are the same text; their \<open>draw\<close> differs: the older one
  keeps the context of its temporary canvas in a variable, the newer one takes a canvas from
  \<open>CanvasProvider\<close> and returns it.  Both versions of \<open>draw\<close> are embedded below.
\<close>

subsection \<open>Geometry\<close>

text \<open>Coordinates are JavaScript numbers; they are taken as real numbers (no NaN, no infinity).\<close>

datatype point = Point (point_x: real) (point_y: real)
datatype dims = Size (size_width: real) (size_height: real)
datatype rectangle =
  Rectangle (rect_x: real) (rect_y: real) (rect_width: real) (rect_height: real)

text \<open>
  Modelled from the spec: \<open>Rectangle.getTopLeft\<close> and \<open>Rectangle.getSize\<close> of the geometry
  classes, which are not among the sources: the top-left corner and the size of a rectangle.
\<close>

definition getTopLeft :: "rectangle \<Rightarrow> point" where
  "getTopLeft r = Point (rect_x r) (rect_y r)"

definition getSize :: "rectangle \<Rightarrow> dims" where
  "getSize r = Size (rect_width r) (rect_height r)"

text \<open>
  Modelled from the spec: \<open>Point.floor\<close>, \<open>Size.ceil\<close> and \<open>Size.add\<close> of the geometry
  classes, which are not among the sources ("floor the rectangle's top-left corner and ceil
  its size, adding one unit of padding in each dimension"): they work coordinate by
  coordinate.
\<close>

definition point_floor :: "point \<Rightarrow> point" where
  "point_floor p = Point (of_int \<lfloor>point_x p\<rfloor>) (of_int \<lfloor>point_y p\<rfloor>)"

definition size_ceil :: "dims \<Rightarrow> dims" where
  "size_ceil s = Size (of_int \<lceil>size_width s\<rceil>) (of_int \<lceil>size_height s\<rceil>)"

definition size_add :: "dims \<Rightarrow> dims \<Rightarrow> dims" where
  "size_add s t = Size (size_width s + size_width t) (size_height s + size_height t)"

subsection \<open>Items\<close>

text \<open>
  An item is a leaf (a path, a text, a raster) or a group.  The fields are the properties
  the methods below read and write: a number that tells items apart in a drawing trace,
  \<open>_clipMask\<close>, the cached bounds, and for a group its matrix, its compositing operation
  (\<open>compositing\<close>, \<open>_clippingCompositionOperation\<close> in the older version), \<open>_children\<close> and
  the cache \<open>_clipItems\<close> (\<open>None\<close> when the property is undefined).  The field \<open>clipMark\<close>
  is the truth value of the property \<open>_clipMark\<close> that the older \<open>draw\<close> reads; nothing in
  the sources ever assigns it, so it is \<open>False\<close> on every item the library builds.

  The cache holds the children found by the scan as values.  Every operation below that
  changes a child also notifies the group, which drops the cache.
\<close>

type_synonym matrix = "real \<times> real \<times> real \<times> real \<times> real \<times> real"

datatype item =
    Shape (ident: nat) (clipMask: bool) (clipMark: bool) (cachedBounds: "rectangle option")
  | Group (ident: nat) (clipMask: bool) (clipMark: bool) (cachedBounds: "rectangle option")
      (matrix: matrix) (compositing: string) (children: "item list")
      (clipItems: "item list option")

subsection \<open>Change notification\<close>

text \<open>
  The constants of \<open>ChangeFlag\<close> are not among the sources; they are a parameter of every
  function that uses them.  Flags are combined and tested with the bit operations of
  JavaScript, on 32-bit integers.
\<close>

record ChangeFlag =
  GEOMETRY :: "32 word"
  HIERARCHY :: "32 word"
  CLIPPING :: "32 word"

text \<open>
  Modelled from the spec: \<open>Item.prototype._changed\<close>, which is not among the sources.  Of
  the state kept here it clears the cached bounds when a GEOMETRY, HIERARCHY or CLIPPING
  flag arrives.
\<close>

fun Item_changed :: "ChangeFlag \<Rightarrow> 32 word \<Rightarrow> item \<Rightarrow> item" where
  "Item_changed cf flags (Shape i m k b) =
     Shape i m k (if flags AND (GEOMETRY cf OR HIERARCHY cf OR CLIPPING cf) \<noteq> 0 then None else b)"
| "Item_changed cf flags (Group i m k b mx cop ch ci) =
     Group i m k (if flags AND (GEOMETRY cf OR HIERARCHY cf OR CLIPPING cf) \<noteq> 0 then None else b)
       mx cop ch ci"

text \<open>\<open>delete this._clipItems\<close>\<close>

fun delete_clipItems :: "item \<Rightarrow> item" where
  "delete_clipItems (Group i m k b mx cop ch ci) = Group i m k b mx cop ch None"
| "delete_clipItems (Shape i m k b) = Shape i m k b"

text \<open>\<open>Group._changed(flags)\<close>\<close>

definition Group_changed :: "ChangeFlag \<Rightarrow> 32 word \<Rightarrow> item \<Rightarrow> item" where
  "Group_changed cf flags this =
     (let this1 = Item_changed cf flags this
      in if flags AND (HIERARCHY cf OR CLIPPING cf) \<noteq> 0 then delete_clipItems this1 else this1)"

text \<open>The call \<open>item._changed(flags)\<close>, dispatched on the kind of item.\<close>

fun changed :: "ChangeFlag \<Rightarrow> 32 word \<Rightarrow> item \<Rightarrow> item" where
  "changed cf flags (Shape i m k b) = Item_changed cf flags (Shape i m k b)"
| "changed cf flags (Group i m k b mx cop ch ci) =
     Group_changed cf flags (Group i m k b mx cop ch ci)"

subsection \<open>Clip items\<close>

text \<open>
  The loop of \<open>_getClipItems\<close>: \<open>acc\<close> is \<open>this._clipItems\<close> while it is being filled.
\<close>

fun clip_scan :: "item list \<Rightarrow> item list \<Rightarrow> item list" where
  "clip_scan [] acc = acc"
| "clip_scan (child # rest) acc = clip_scan rest (if clipMask child then acc @ [child] else acc)"

text \<open>
  \<open>Group._getClipItems()\<close>: the returned array and the group afterwards, its cache filled.
  It is a method of groups only.
\<close>

fun getClipItems :: "item \<Rightarrow> item list \<times> item" where
  "getClipItems (Group i m k b mx cop ch None) =
     (clip_scan ch [], Group i m k b mx cop ch (Some (clip_scan ch [])))"
| "getClipItems (Group i m k b mx cop ch (Some r)) = (r, Group i m k b mx cop ch (Some r))"

text \<open>\<open>Group.isClipped()\<close>\<close>

definition isClipped :: "item \<Rightarrow> bool \<times> item" where
  "isClipped this = (let (r, this1) = getClipItems this in (length r \<noteq> 0, this1))"

text \<open>
  Modelled from the spec: \<open>Item.setClipMask\<close>, which is not among the sources.  It stores
  the flag in \<open>_clipMask\<close> and emits a CLIPPING notification; the notification reaches the
  item itself here and its parent in \<open>setClipped\<close>.
\<close>

fun set_clipMask :: "bool \<Rightarrow> item \<Rightarrow> item" where
  "set_clipMask v (Shape i m k b) = Shape i v k b"
| "set_clipMask v (Group i m k b mx cop ch ci) = Group i v k b mx cop ch ci"

definition setClipMask :: "ChangeFlag \<Rightarrow> bool \<Rightarrow> item \<Rightarrow> item" where
  "setClipMask cf v child = changed cf (CLIPPING cf) (set_clipMask v child)"

text \<open>
  \<open>Group.setClipped(clipped)\<close>.  \<open>getFirstChild()\<close> is the first entry of \<open>_children\<close>, or
  nothing when there is none.  The notification that \<open>setClipMask\<close> emits travels from the
  child to its parent, which is this group.
\<close>

fun setClipped :: "ChangeFlag \<Rightarrow> bool \<Rightarrow> item \<Rightarrow> item" where
  "setClipped cf clipped (Group i m k b mx cop [] ci) = Group i m k b mx cop [] ci"
| "setClipped cf clipped (Group i m k b mx cop (child # rest) ci) =
     Group_changed cf (CLIPPING cf)
       (Group i m k b mx cop (setClipMask cf clipped child # rest) ci)"

text \<open>
  Modelled from the spec: \<open>Item.addChild\<close>, which is not among the sources: the child is
  appended to the children and a HIERARCHY notification is emitted.
\<close>

fun addChild :: "ChangeFlag \<Rightarrow> item \<Rightarrow> item \<Rightarrow> item" where
  "addChild cf child (Group i m k b mx cop ch ci) =
     Group_changed cf (HIERARCHY cf) (Group i m k b mx cop (ch @ [child]) ci)"

text \<open>
  The state of an item apart from its caches.  The cached bounds and the clip-item cache are
  derived from the rest of the state and computed again on the next read.
\<close>

fun persistent :: "item \<Rightarrow> item" where
  "persistent (Shape i m k b) = Shape i m k None"
| "persistent (Group i m k b mx cop ch ci) = Group i m k None mx cop ch None"

subsection \<open>The canvas pool\<close>

text \<open>
  Modelled from the spec: \<open>CanvasProvider\<close> (the SurfacePool of the spec), which is not among
  the sources.  It keeps a list of free canvases.  \<open>getCanvas(size)\<close> hands out a free canvas
  that is at least as large as the size asked for, and creates a new canvas when there is
  none; \<open>returnCanvas(canvas)\<close> puts a canvas on the free list.  A canvas is known by the
  number it was created with.
\<close>

record canvas =
  cid :: nat
  cwidth :: real
  cheight :: real

record pool =
  canvases :: "canvas list"
  created :: nat

definition fits :: "dims \<Rightarrow> canvas \<Rightarrow> bool" where
  "fits sz c = (size_width sz \<le> cwidth c \<and> size_height sz \<le> cheight c)"

definition getCanvas :: "dims \<Rightarrow> pool \<Rightarrow> canvas \<times> pool" where
  "getCanvas sz p =
     (case find (fits sz) (canvases p) of
        Some c \<Rightarrow> (c, p\<lparr>canvases := remove1 c (canvases p)\<rparr>)
      | None \<Rightarrow>
          (\<lparr>cid = created p, cwidth = size_width sz, cheight = size_height sz\<rparr>,
           p\<lparr>created := Suc (created p)\<rparr>))"

definition returnCanvas :: "canvas \<Rightarrow> pool \<Rightarrow> pool" where
  "returnCanvas c p = p\<lparr>canvases := c # canvases p\<rparr>"

subsection \<open>Drawing\<close>

text \<open>
  A drawing context is the context of the view or the 2D context of a pooled canvas.  A draw
  call is observed through the calls it makes on contexts and on the pool, in order.
\<close>

datatype ctx = ViewContext | CanvasContext nat

datatype event =
    GetCanvas dims nat
  | ReturnCanvas nat
  | Save ctx
  | Restore ctx
  | Translate ctx real real
  | ApplyMatrix ctx matrix
  | SetCompositeOperation ctx string
  | DrawShape ctx nat
  | DrawImage ctx ctx real real
  | ClearRect ctx real real real real

text \<open>What a draw call changes besides the canvases: \<open>param.offset\<close> and the pool.\<close>

record draw_state =
  offset :: point
  provider :: pool

text \<open>A loop over a list whose body emits events and changes the state.\<close>

fun for_each :: "('a \<Rightarrow> 's \<Rightarrow> event list \<times> 's) \<Rightarrow> 'a list \<Rightarrow> 's \<Rightarrow> event list \<times> 's" where
  "for_each body [] s = ([], s)"
| "for_each body (x # xs) s =
     (let (es1, s1) = body x s; (es2, s2) = for_each body xs s1 in (es1 @ es2, s2))"

lemma for_each_cong [fundef_cong]:
  "xs = ys \<Longrightarrow> (\<And>x s. x \<in> set ys \<Longrightarrow> f x s = g x s) \<Longrightarrow> for_each f xs = for_each g ys"
proof -
  have "(\<And>x s. x \<in> set ys \<Longrightarrow> f x s = g x s) \<Longrightarrow> for_each f ys s = for_each g ys s" for s
    by (induction ys arbitrary: s) (auto split: prod.splits)
  then show "xs = ys \<Longrightarrow> (\<And>x s. x \<in> set ys \<Longrightarrow> f x s = g x s) \<Longrightarrow> for_each f xs = for_each g ys"
    by auto
qed

lemma clip_scan_filter: "clip_scan xs acc = acc @ filter clipMask xs"
  by (induction xs arbitrary: acc) auto

lemma size_member: "x \<in> set xs \<Longrightarrow> size x < Suc (size_list size xs)"
  by (induction xs) auto

lemma getClipItems_size:
  "x \<in> set (fst (getClipItems (Group i m k b mx cop ch ci))) \<Longrightarrow>
   size x < size (Group i m k b mx cop ch ci)"
  by (cases ci) (auto simp: clip_scan_filter dest: size_member)

text \<open>
  Modelled from the spec: the \<open>draw\<close> method of a leaf item, which is not among the sources.
  The leaf paints its own shape on the context it is given: one event that names the leaf.
\<close>

definition Shape_draw :: "nat \<Rightarrow> ctx \<Rightarrow> draw_state \<Rightarrow> event list \<times> draw_state" where
  "Shape_draw i ctx st = ([DrawShape ctx i], st)"

text \<open>
  \<open>Group.draw(ctx, param)\<close> of the version that takes its temporary canvas from the pool.
  The stroke bounds of a group are computed by \<open>Item.getStrokeBounds\<close>, which is not among
  the sources; its result is the parameter \<open>getStrokeBounds\<close>.  The static
  \<open>Item.draw(item, ctx, param)\<close> is not among the sources either; it is taken to call the
  item's own \<open>draw\<close>, which is \<open>Shape_draw\<close> for a leaf and this function again for a
  group.  \<open>!bounds.width\<close> holds when the width is 0.  The variable \<open>prevOffset\<close> is
  assigned and never read.  The draw fills the clip-item caches
  of the groups it visits; the items are read only, so the caches are not written back.
\<close>

function draw_pooled ::
  "(item \<Rightarrow> rectangle) \<Rightarrow> item \<Rightarrow> ctx \<Rightarrow> draw_state \<Rightarrow> event list \<times> draw_state" where
  "draw_pooled getStrokeBounds (Shape i m k b) ctx st = Shape_draw i ctx st"
| "draw_pooled getStrokeBounds (Group i m k b mx cop ch ci) ctx st =
     (let this = Group i m k b mx cop ch ci;
          clipItems = fst (getClipItems this)
      in if length clipItems \<noteq> 0 then
           (let bounds = getStrokeBounds this
            in if rect_width bounds = 0 \<or> rect_height bounds = 0 then ([], st)
               else
                 (let parentCtx = ctx;
                      itemOffset = point_floor (getTopLeft bounds);
                      st1 = st\<lparr>offset := itemOffset\<rparr>;
                      sz = size_add (size_ceil (getSize bounds)) (Size 1 1);
                      (tempCanvas, p1) = getCanvas sz (provider st1);
                      st2 = st1\<lparr>provider := p1\<rparr>;
                      ctx1 = CanvasContext (cid tempCanvas);
                      (es1, st3) =
                        for_each (\<lambda>item. draw_pooled getStrokeBounds item ctx1) clipItems st2;
                      (es2, st4) =
                        for_each
                          (\<lambda>item s. if \<not> clipMask item
                             then draw_pooled getStrokeBounds item ctx1 s else ([], s))
                          ch st3
                  in ([GetCanvas sz (cid tempCanvas), Save ctx1,
                       Translate ctx1 (- point_x itemOffset) (- point_y itemOffset),
                       ApplyMatrix ctx1 mx]
                      @ es1 @ [SetCompositeOperation ctx1 cop] @ es2
                      @ [DrawImage parentCtx ctx1 (point_x itemOffset) (point_y itemOffset),
                         Restore ctx1, ReturnCanvas (cid tempCanvas)],
                      st4\<lparr>provider := returnCanvas tempCanvas (provider st4)\<rparr>)))
         else
           for_each
             (\<lambda>item s. if \<not> clipMask item
                then draw_pooled getStrokeBounds item ctx s else ([], s))
             ch st)"
  by pat_completeness auto
termination
  by (relation "measure (\<lambda>(g, it, c, s). size it)") (auto dest: getClipItems_size size_member)

text \<open>
  \<open>Group.draw(ctx, param)\<close> of the older version.  The bounds come from \<open>Item.getBounds\<close>,
  the parameter \<open>getBounds\<close>.  The function declares \<open>context\<close> among its own variables
  (\<open>var bounds, clipItems, context, ...\<close>), which hides the variable of the same name in the
  enclosing scope: on every call \<open>context\<close> starts undefined, \<open>!context\<close> holds, and a canvas
  is taken from \<open>CanvasProvider\<close>; it is never returned.  The loop over the children tests
  \<open>item._clipMark\<close>.
\<close>

function draw_shared ::
  "(item \<Rightarrow> rectangle) \<Rightarrow> item \<Rightarrow> ctx \<Rightarrow> draw_state \<Rightarrow> event list \<times> draw_state" where
  "draw_shared getBounds (Shape i m k b) ctx st = Shape_draw i ctx st"
| "draw_shared getBounds (Group i m k b mx cop ch ci) ctx st =
     (let this = Group i m k b mx cop ch ci;
          clipItems = fst (getClipItems this)
      in if length clipItems \<noteq> 0 then
           (let originalCtx = ctx;
                bounds = getBounds this;
                (canvas, p1) = getCanvas (getSize bounds) (provider st);
                st1 = st\<lparr>provider := p1\<rparr>;
                ctx1 = CanvasContext (cid canvas);
                (es1, st2) =
                  for_each (\<lambda>item. draw_shared getBounds item ctx1) clipItems st1;
                (es2, st3) =
                  for_each
                    (\<lambda>item s. if \<not> clipMark item
                       then draw_shared getBounds item ctx1 s else ([], s))
                    ch st2
            in ([GetCanvas (getSize bounds) (cid canvas), Save ctx1,
                 Translate ctx1 (- rect_x bounds) (- rect_y bounds)]
                @ es1 @ [SetCompositeOperation ctx1 cop] @ es2
                @ [DrawImage originalCtx ctx1 (rect_x bounds) (rect_y bounds), Restore ctx1,
                   ClearRect ctx1 0 0 (cwidth canvas + 1) (cheight canvas + 1)],
                st3))
         else
           for_each
             (\<lambda>item s. if \<not> clipMark item
                then draw_shared getBounds item ctx s else ([], s))
             ch st)"
  by pat_completeness auto
termination
  by (relation "measure (\<lambda>(g, it, c, s). size it)") (auto dest: getClipItems_size size_member)

declare draw_pooled.simps(2) [simp del]
declare draw_shared.simps(2) [simp del]

subsection \<open>The hand-out discipline of canvases\<close>

text \<open>
  \<open>handout_ok live es\<close>: along the events \<open>es\<close>, starting with the canvases \<open>live\<close> handed
  out and not yet returned, no canvas is handed out while it is live, and only a live canvas
  is returned.  \<open>live_after live es\<close> is the list of live canvases after the events.
\<close>

fun handout_ok :: "nat list \<Rightarrow> event list \<Rightarrow> bool" where
  "handout_ok live [] = True"
| "handout_ok live (GetCanvas sz c # es) = (c \<notin> set live \<and> handout_ok (c # live) es)"
| "handout_ok live (ReturnCanvas c # es) = (c \<in> set live \<and> handout_ok (remove1 c live) es)"
| "handout_ok live (e # es) = handout_ok live es"

fun live_after :: "nat list \<Rightarrow> event list \<Rightarrow> nat list" where
  "live_after live [] = live"
| "live_after live (GetCanvas sz c # es) = live_after (c # live) es"
| "live_after live (ReturnCanvas c # es) = live_after (remove1 c live) es"
| "live_after live (e # es) = live_after live es"

text \<open>
  A pool and the live canvases fit together: no canvas is both free and live or listed
  twice, and every canvas has been created.
\<close>

definition pool_ok :: "pool \<Rightarrow> nat list \<Rightarrow> bool" where
  "pool_ok p live =
     (distinct (map cid (canvases p) @ live)
      \<and> list_all (\<lambda>n. n < created p) (map cid (canvases p) @ live))"

text \<open>
  A draw that returns every canvas it takes (\<open>balanced\<close>), and a draw that may keep
  canvases (\<open>growing\<close>).
\<close>

definition balanced :: "(draw_state \<Rightarrow> event list \<times> draw_state) \<Rightarrow> bool" where
  "balanced f =
     (\<forall>st live. pool_ok (provider st) live \<longrightarrow>
        handout_ok live (fst (f st)) \<and> live_after live (fst (f st)) = live
        \<and> pool_ok (provider (snd (f st))) live)"

definition growing :: "(draw_state \<Rightarrow> event list \<times> draw_state) \<Rightarrow> bool" where
  "growing f =
     (\<forall>st live. pool_ok (provider st) live \<longrightarrow>
        handout_ok live (fst (f st))
        \<and> pool_ok (provider (snd (f st))) (live_after live (fst (f st))))"

subsection \<open>Example scenes\<close>

definition pool0 :: pool where
  "pool0 = \<lparr>canvases = [], created = 0\<rparr>"

definition state0 :: draw_state where
  "state0 = \<lparr>offset = Point 0 0, provider = pool0\<rparr>"

text \<open>Bounds with left edge 10.4, top edge 5.2, width 20.3 and height 7, for every item.\<close>

definition bounds0 :: "item \<Rightarrow> rectangle" where
  "bounds0 it = Rectangle (104 / 10) (52 / 10) (203 / 10) 7"

definition flat_bounds :: "item \<Rightarrow> rectangle" where
  "flat_bounds it = Rectangle 3 4 0 7"

definition mx0 :: matrix where
  "mx0 = (1, 0, 0, 1, 0, 0)"

text \<open>Sample flag values: distinct single bits.\<close>

definition flags0 :: ChangeFlag where
  "flags0 = \<lparr>GEOMETRY = 4, HIERARCHY = 2, CLIPPING = 256\<rparr>"

text \<open>A group of a clip mask (leaf 1) and a leaf to be clipped (leaf 2).\<close>

definition clipped_pair :: item where
  "clipped_pair =
     Group 0 False False None mx0 ''source-in''
       [Shape 1 True False None, Shape 2 False False None] None"

text \<open>A clipped group inside a clipped group.\<close>

definition nested_group :: item where
  "nested_group =
     Group 0 False False None mx0 ''source-in''
       [Shape 1 True False None,
        Group 3 False False None mx0 ''source-in''
          [Shape 4 True False None, Shape 5 False False None] None,
        Shape 2 False False None] None"

text \<open>An unclipped group of two leaves whose clip items have been read (the cache is filled).\<close>

definition cached_pair :: item where
  "cached_pair =
     Group 0 False False None mx0 ''source-in''
       [Shape 1 False False None, Shape 2 False False None] (Some [])"

text \<open>A group whose only clip mask is its second child.\<close>

definition late_mask :: item where
  "late_mask =
     Group 0 False False None mx0 ''source-in''
       [Shape 1 False False None, Shape 2 True False None] (Some [Shape 2 True False None])"

section \<open>Theorems\<close>

subsection \<open>Properties of Base.equals\<close>

lemma array_has_no_equals: "\<not> has_equals (Array a xs)"
  by (simp add: has_equals_def object_prototype_def array_prototype_def)

lemma array_loop_None:
  "i < l \<Longrightarrow> rec obj1 obj2 = None \<Longrightarrow> array_loop rec obj1 obj2 i l = None"
  by simp

text \<open>
  Claim C9 (it fails on the code).  \<open>Base.equals([1], [1])\<close> on two distinct arrays never
  returns: the array loop calls \<open>Base.equals\<close> on the same two arrays again, so no depth of
  nesting is enough.
\<close>

theorem C9_equals_distinct_arrays_diverges:
  "Base_equals coerce n (Array 1 [Number 1]) (Array 2 [Number 1]) = None"
proof (induction n)
  case 0
  show ?case by simp
next
  case (Suc n)
  have "array_loop (Base_equals coerce n)
          (Array 1 [Number 1]) (Array 2 [Number 1]) 0 (Suc 0) = None"
    using Suc by (intro array_loop_None) simp_all
  then show ?case
    by (simp add: equals_body_def array_has_no_equals)
qed

text \<open>
  The same holds of any two distinct arrays of equal length that are not empty.
\<close>

lemma equals_distinct_arrays_diverge:
  assumes "a \<noteq> b" and "length xs = length ys" and "xs \<noteq> []"
  shows "Base_equals coerce n (Array a xs) (Array b ys) = None"
proof (induction n)
  case 0
  show ?case by simp
next
  case (Suc n)
  have "array_loop (Base_equals coerce n) (Array a xs) (Array b ys) 0 (length xs) = None"
    using Suc assms(3) by (intro array_loop_None) simp_all
  then show ?case
    using assms(1,2) by (simp add: equals_body_def array_has_no_equals)
qed

text \<open>
  For comparison: nested plain objects without an \<open>equals\<close> property are compared
  property by property, and two arrays of different length are told apart at once.
\<close>

lemma equals_nested_objects:
  "Base_equals coerce 3
     (Object 1 [(Name ''a'', Number 1), (Name ''b'', Object 2 [(Name ''c'', String ''x'')])])
     (Object 3 [(Name ''a'', Number 1), (Name ''b'', Object 4 [(Name ''c'', String ''x'')])])
   = Some (Inr True)"
  by (simp add: equals_body_def has_equals_def checkKeys_def hasOwnProperty_call_def
      object_prototype_def safe_integer_def numeral_3_eq_3)

lemma equals_arrays_of_different_length:
  "Base_equals coerce 1 (Array 1 [Number 1]) (Array 2 [Number 1, Number 2]) = Some (Inr False)"
  by (simp add: equals_body_def array_has_no_equals)

subsection \<open>Properties of Base.splice\<close>

lemma indexed_iff: "indexed h list \<longleftrightarrow> (\<forall>i < length list. h (list ! i) = Some (int i))"
proof
  assume a: "indexed h list"
  show "\<forall>i < length list. h (list ! i) = Some (int i)"
  proof (intro allI impI)
    fix i assume i: "i < length list"
    have "map h list ! i = map (\<lambda>i. Some (int i)) [0..<length list] ! i"
      using a by (simp only: indexed_def)
    then show "h (list ! i) = Some (int i)" using i by simp
  qed
next
  assume "\<forall>i < length list. h (list ! i) = Some (int i)"
  then show "indexed h list"
    unfolding indexed_def by (intro nth_equalityI) simp_all
qed

lemma indexed_distinct: "indexed h list \<Longrightarrow> distinct list"
  unfolding indexed_iff distinct_conv_nth by (metis of_nat_eq_iff option.inject)

lemma set_indices_other: "a \<notin> set xs \<Longrightarrow> set_indices h xs k a = h a"
  by (induction xs arbitrary: h k) auto

lemma set_indices_nth:
  "distinct xs \<Longrightarrow> j < length xs \<Longrightarrow> set_indices h xs k (xs ! j) = Some (k + int j)"
proof (induction xs arbitrary: h k j)
  case Nil
  then show ?case by simp
next
  case (Cons a as)
  show ?case
  proof (cases j)
    case 0
    then show ?thesis using Cons.prems by (simp add: set_indices_other)
  next
    case (Suc m)
    have "set_indices (h(a := Some k)) as (k + 1) (as ! m) = Some (k + 1 + int m)"
      using Cons.prems Suc by (intro Cons.IH) simp_all
    then show ?thesis using Suc by (simp add: add.assoc)
  qed
qed

lemma delete_indices_other: "a \<notin> set xs \<Longrightarrow> delete_indices h xs a = h a"
  by (induction xs arbitrary: h) auto

lemma delete_indices_in: "a \<in> set xs \<Longrightarrow> delete_indices h xs a = None"
proof (induction xs arbitrary: h)
  case Nil
  then show ?case by simp
next
  case (Cons b bs)
  show ?case
  proof (cases "a \<in> set bs")
    case True
    then show ?thesis by (simp add: Cons.IH)
  next
    case False
    then have "a = b" using Cons.prems by simp
    then show ?thesis using False by (simp add: delete_indices_other)
  qed
qed

lemma adjust_indices_ok:
  "0 \<le> i \<Longrightarrow> \<exists>h'. adjust_indices h list i = Inr h'
      \<and> (\<forall>a. a \<notin> set (drop (nat i) list) \<longrightarrow> h' a = h a)
      \<and> (distinct list \<longrightarrow> (\<forall>j. nat i \<le> j \<and> j < length list \<longrightarrow> h' (list ! j) = Some (int j)))"
proof (induction h list i rule: adjust_indices.induct)
  case (1 h list i)
  show ?case
  proof (cases "i < int (length list)")
    case False
    then show ?thesis using "1.prems" by (subst adjust_indices.simps) auto
  next
    case True
    let ?h = "h(list ! nat i := Some i)"
    have "\<not> i < 0" "0 \<le> i + 1" using "1.prems" by simp_all
    from "1.IH" [OF True this]
    obtain h' where h': "adjust_indices ?h list (i + 1) = Inr h'"
      and other: "\<forall>a. a \<notin> set (drop (nat (i + 1)) list) \<longrightarrow> h' a = ?h a"
      and here: "distinct list \<longrightarrow> (\<forall>j. nat (i + 1) \<le> j \<and> j < length list \<longrightarrow> h' (list ! j) = Some (int j))"
      unfolding fun_upd_def by blast
    have eq: "adjust_indices h list i = Inr h'"
      using True "1.prems" h' by (subst adjust_indices.simps) simp
    have ni: "nat i < length list" using True "1.prems" by simp
    have drop_eq: "drop (nat i) list = list ! nat i # drop (nat (i + 1)) list"
      using ni "1.prems" by (simp add: Cons_nth_drop_Suc nat_add_distrib)
    have a: "\<forall>a. a \<notin> set (drop (nat i) list) \<longrightarrow> h' a = h a"
      using other drop_eq by auto
    have b: "distinct list \<longrightarrow> (\<forall>j. nat i \<le> j \<and> j < length list \<longrightarrow> h' (list ! j) = Some (int j))"
    proof (intro impI allI)
      fix j assume d: "distinct list" and j: "nat i \<le> j \<and> j < length list"
      show "h' (list ! j) = Some (int j)"
      proof (cases "j = nat i")
        case True
        have "list ! nat i \<notin> set (drop (nat (i + 1)) list)"
          using d drop_eq ni by (metis distinct.simps(2) distinct_drop)
        then have "h' (list ! nat i) = ?h (list ! nat i)" using other by blast
        then show ?thesis using True "1.prems" by simp
      next
        case False
        then have "nat (i + 1) \<le> j" using j "1.prems" by (simp add: nat_add_distrib)
        then show ?thesis using here d j by blast
      qed
    qed
    show ?thesis using eq a b by blast
  qed
qed


lemma splice_append_ok:
  assumes "indexed h list" and "distinct xs" and "set xs \<inter> set list = {}"
  shows "indexed (set_indices h xs (int (length list))) (list @ xs)"
  unfolding indexed_iff
proof (intro allI impI)
  fix i assume i: "i < length (list @ xs)"
  show "set_indices h xs (int (length list)) ((list @ xs) ! i) = Some (int i)"
  proof (cases "i < length list")
    case True
    then have "list ! i \<notin> set xs" using assms(3) by (meson disjoint_iff nth_mem)
    then show ?thesis using True assms(1) by (simp add: nth_append set_indices_other indexed_iff)
  next
    case False
    then have "i - length list < length xs" using i by simp
    then show ?thesis using False assms(2) by (simp add: nth_append set_indices_nth)
  qed
qed

lemma splice_insert_ok:
  assumes ix: "indexed h list" and dx: "distinct xs" and disj: "set xs \<inter> set list = {}"
    and s: "s \<le> length list"
  shows "\<exists>h3. adjust_indices
            (delete_indices (set_indices h xs (int s)) (take d (drop s list)))
            (take s list @ xs @ drop (s + d) list) (int s + int (length xs)) = Inr h3
          \<and> indexed h3 (take s list @ xs @ drop (s + d) list)
          \<and> list_all (\<lambda>a. h3 a = None) (take d (drop s list))"
proof -
  let ?removed = "take d (drop s list)"
  let ?list' = "take s list @ xs @ drop (s + d) list"
  let ?h1 = "set_indices h xs (int s)"
  let ?h2 = "delete_indices ?h1 ?removed"
  have dl: "distinct list" using ix by (rule indexed_distinct)
  have front_rest: "set (take s list) \<inter> set (drop (s + d) list) = {}"
    using dl by (simp add: set_take_disj_set_drop_if_distinct)
  have xs_front: "set xs \<inter> set (take s list) = {}"
    using disj set_take_subset [of s list] by blast
  have xs_rest: "set xs \<inter> set (drop (s + d) list) = {}"
    using disj set_drop_subset [of "s + d" list] by blast
  have rem_sub: "set ?removed \<subseteq> set (drop s list)" by (rule set_take_subset)
  have rem_front: "set ?removed \<inter> set (take s list) = {}"
    using rem_sub set_take_disj_set_drop_if_distinct [OF dl, of s s] by blast
  have "set (take d (drop s list)) \<inter> set (drop d (drop s list)) = {}"
    by (rule set_take_disj_set_drop_if_distinct) (use dl in simp_all)
  then have rem_rest: "set ?removed \<inter> set (drop (s + d) list) = {}"
    by (simp add: add.commute)
  have rem_xs: "set ?removed \<inter> set xs = {}"
    using rem_sub set_drop_subset [of s list] disj by blast
  have dl': "distinct ?list'"
    using dl dx front_rest xs_front xs_rest by (auto simp: Int_commute)
  have len_front: "length (take s list) = s" using s by simp
  have drop': "drop (s + length xs) ?list' = drop (s + d) list"
    using len_front by simp
  have "0 \<le> int s + int (length xs)" by simp
  from adjust_indices_ok [OF this, of ?h2 ?list']
  obtain h3 where h3: "adjust_indices ?h2 ?list' (int s + int (length xs)) = Inr h3"
    and other: "\<forall>a. a \<notin> set (drop (nat (int s + int (length xs))) ?list') \<longrightarrow> h3 a = ?h2 a"
    and here: "distinct ?list' \<longrightarrow> (\<forall>j. nat (int s + int (length xs)) \<le> j \<and> j < length ?list'
                 \<longrightarrow> h3 (?list' ! j) = Some (int j))"
    by blast
  have nat_eq: "nat (int s + int (length xs)) = s + length xs" by simp
  have other': "\<And>a. a \<notin> set (drop (s + d) list) \<Longrightarrow> h3 a = ?h2 a"
    using other unfolding nat_eq drop' by blast
  have here': "\<And>j. s + length xs \<le> j \<Longrightarrow> j < length ?list' \<Longrightarrow> h3 (?list' ! j) = Some (int j)"
    using here dl' unfolding nat_eq by blast
  have "indexed h3 ?list'"
    unfolding indexed_iff
  proof (intro allI impI)
    fix j assume j: "j < length ?list'"
    consider (front) "j < s" | (mid) "s \<le> j" "j < s + length xs" | (rest) "s + length xs \<le> j"
      by linarith
    then show "h3 (?list' ! j) = Some (int j)"
    proof cases
      case front
      have nth: "?list' ! j = list ! j" using front len_front by (simp add: nth_append)
      have mem: "list ! j \<in> set (take s list)"
        using front s by (metis len_front nth_mem nth_take)
      have "h3 (list ! j) = ?h2 (list ! j)" using mem front_rest other' by blast
      also have "\<dots> = ?h1 (list ! j)" using mem rem_front by (intro delete_indices_other) blast
      also have "\<dots> = h (list ! j)" using mem xs_front by (intro set_indices_other) blast
      also have "\<dots> = Some (int j)" using ix front s by (simp add: indexed_iff)
      finally show ?thesis using nth by simp
    next
      case mid
      have js: "j - s < length xs" using mid by linarith
      have nth: "?list' ! j = xs ! (j - s)" using mid len_front js by (simp add: nth_append)
      have mem: "xs ! (j - s) \<in> set xs" using mid by simp
      have "h3 (xs ! (j - s)) = ?h2 (xs ! (j - s))" using mem xs_rest other' by blast
      also have "\<dots> = ?h1 (xs ! (j - s))" using mem rem_xs by (intro delete_indices_other) blast
      also have "\<dots> = Some (int s + int (j - s))" using mid dx by (intro set_indices_nth) simp_all
      finally show ?thesis using nth mid by simp
    next
      case rest
      then show ?thesis using here' j by blast
    qed
  qed
  moreover have "list_all (\<lambda>a. h3 a = None) ?removed"
    unfolding list_all_iff
  proof
    fix a assume a: "a \<in> set ?removed"
    then have "h3 a = ?h2 a" using rem_rest other' by blast
    then show "h3 a = None" using a by (simp add: delete_indices_in)
  qed
  ultimately show ?thesis using h3 by blast
qed



lemma js_splice_in_range:
  "0 \<le> i \<Longrightarrow> i \<le> int (length list) \<Longrightarrow>
   js_splice list i r xs =
     (take (nat i) list @ xs @ drop (nat i + nat (min (max r 0) (int (length list) - i))) list,
      take (nat (min (max r 0) (int (length list) - i))) (drop (nat i) list))"
  by (simp add: js_splice_def Let_def min_def)

text \<open>
  Claim C10, amended.  Let every element of the list hold its position in \<open>_index\<close>.
  If \<open>index\<close> is undefined or lies between 0 and the length of the list, and \<open>items\<close>
  is null or an array of pairwise distinct objects none of which is in the list, then
  \<open>Base.splice\<close> returns normally, every element of the resulting list holds its position
  in \<open>_index\<close>, and every removed element has no \<open>_index\<close> left.
\<close>

theorem C10_splice_keeps_indices:
  assumes "indexed h list"
    and "items = ItemsNull \<or> items = Items xs \<and> distinct xs \<and> set xs \<inter> set list = {}"
    and "index = None \<or> index = Some i \<and> 0 \<le> i \<and> i \<le> int (length list)"
  shows "\<exists>h' list' removed.
           Base_splice h list items index remove = Inr (h', list', removed)
           \<and> indexed h' list' \<and> list_all (\<lambda>a. h' a = None) removed"
proof -
  let ?xs = "items_list items"
  have dx: "distinct ?xs" and disj: "set ?xs \<inter> set list = {}"
    and am: "amount_of items = Some (int (length ?xs))"
    using assms(2) by auto
  show ?thesis
  proof (cases index)
    case None
    then show ?thesis
      using splice_append_ok [OF assms(1) dx disj] by (simp add: Base_splice_def)
  next
    case (Some k)
    then have k: "k = i" "0 \<le> i" "i \<le> int (length list)" using assms(3) by auto
    let ?d = "nat (min (max (case remove of None \<Rightarrow> 0 | Some r \<Rightarrow> r) 0) (int (length list) - i))"
    have s: "nat i \<le> length list" using k by simp
    from splice_insert_ok [OF assms(1) dx disj s, of ?d]
    obtain h3 where
      "adjust_indices (delete_indices (set_indices h ?xs (int (nat i))) (take ?d (drop (nat i) list)))
         (take (nat i) list @ ?xs @ drop (nat i + ?d) list) (int (nat i) + int (length ?xs)) = Inr h3"
      and "indexed h3 (take (nat i) list @ ?xs @ drop (nat i + ?d) list)"
      and "list_all (\<lambda>a. h3 a = None) (take ?d (drop (nat i) list))"
      by blast
    then show ?thesis
      using Some k am by (simp add: Base_splice_def js_splice_in_range)
  qed
qed


text \<open>The amended claim at work: replacing the first of two elements by a new one.\<close>

theorem C10_splice_keeps_indices_witness:
  "indexed heap2 [10, 11]
   \<and> (\<exists>h' list' removed.
         Base_splice heap2 [10, 11] (Items [12]) (Some 0) (Some 1) = Inr (h', list', removed)
         \<and> indexed h' list' \<and> list_all (\<lambda>a. h' a = None) removed)"
  using C10_splice_keeps_indices [of heap2 "[10, 11]" "Items [12]" "[12]" "Some 0" 0 "Some 1"]
  by (simp add: indexed_def heap2_def)

lemma splice_replace_first:
  "Base_splice heap2 [10, 11] (Items [12]) (Some 0) (Some 1)
     = Inr (heap2(12 := Some 0, 10 := None, 11 := Some 1), [12, 11], [10])"
  by (simp add: Base_splice_def js_splice_def adjust_indices.simps)

text \<open>
  Claim C10 as stated fails.  On the indexed list of the objects 10 and 11: an index beyond
  the end leaves the inserted object with the index it was called with; an inserted object
  that is already in the list, or that occurs twice among the items, ends at a position other
  than its \<open>_index\<close>; with \<open>items\<close> undefined the loop that renumbers the elements above
  starts at \<open>index + undefined\<close> and never runs; and a negative index makes that loop write
  to \<open>list[-1]\<close>, which throws.
\<close>

theorem C10_splice_breaks_indices:
  "indexed heap2 [10, 11]
   \<and> (case Base_splice heap2 [10, 11] (Items [12]) (Some 5) (Some 0) of
        Inl e \<Rightarrow> False
      | Inr (h', list', removed) \<Rightarrow> list' = [10, 11, 12] \<and> h' 12 = Some 5 \<and> \<not> indexed h' list')
   \<and> (case Base_splice heap2 [10, 11] (Items [10]) None None of
        Inl e \<Rightarrow> False
      | Inr (h', list', removed) \<Rightarrow> list' = [10, 11, 10] \<and> h' 10 = Some 2 \<and> \<not> indexed h' list')
   \<and> (case Base_splice heap2 [10, 11] (Items [12, 12]) None None of
        Inl e \<Rightarrow> False
      | Inr (h', list', removed) \<Rightarrow> list' = [10, 11, 12, 12] \<and> h' 12 = Some 3 \<and> \<not> indexed h' list')
   \<and> (case Base_splice heap2 [10, 11] ItemsUndefined (Some 0) (Some 1) of
        Inl e \<Rightarrow> False
      | Inr (h', list', removed) \<Rightarrow> list' = [11] \<and> h' 11 = Some 1 \<and> \<not> indexed h' list')
   \<and> Base_splice heap2 [10, 11] ItemsNull (Some (- 1)) (Some 1) = Inl TypeError"
  by (simp add: Base_splice_def js_splice_def adjust_indices.simps indexed_def heap2_def)

subsection \<open>Properties of the canvas pool and of drawing\<close>

lemma live_after_append: "live_after live (es1 @ es2) = live_after (live_after live es1) es2"
  by (induction live es1 rule: live_after.induct) simp_all

lemma handout_ok_append:
  "handout_ok live (es1 @ es2) = (handout_ok live es1 \<and> handout_ok (live_after live es1) es2)"
  by (induction live es1 rule: handout_ok.induct) simp_all

lemma find_fits_mem: "find P xs = Some c \<Longrightarrow> c \<in> set xs"
  by (induction xs) (auto split: if_splits)

lemma distinct_map_remove1:
  "distinct (map f xs) \<Longrightarrow> c \<in> set xs \<Longrightarrow>
   distinct (map f (remove1 c xs)) \<and> f c \<notin> f ` set (remove1 c xs)"
  by (induction xs) (auto simp: image_iff dest: notin_set_remove1)

lemma getCanvas_pool_ok:
  assumes "pool_ok p live"
  shows "cid (fst (getCanvas sz p)) \<notin> set live
         \<and> pool_ok (snd (getCanvas sz p)) (cid (fst (getCanvas sz p)) # live)"
proof (cases "find (fits sz) (canvases p)")
  case None
  have "created p \<notin> set live" "created p \<notin> cid ` set (canvases p)"
    using assms by (auto simp: pool_ok_def list_all_iff)
  moreover have "list_all (\<lambda>n. n < Suc (created p)) (map cid (canvases p) @ live)"
    using assms by (auto simp: pool_ok_def list_all_iff less_Suc_eq)
  ultimately show ?thesis
    using None assms by (auto simp: getCanvas_def pool_ok_def)
next
  case (Some c)
  then have mem: "c \<in> set (canvases p)" by (rule find_fits_mem)
  have d: "distinct (map cid (canvases p))" using assms by (simp add: pool_ok_def)
  from distinct_map_remove1 [OF d mem]
  have r: "distinct (map cid (remove1 c (canvases p)))"
    "cid c \<notin> cid ` set (remove1 c (canvases p))" by simp_all
  have sub: "set (remove1 c (canvases p)) \<subseteq> set (canvases p)" by (rule set_remove1_subset)
  have "distinct live" using assms by (simp add: pool_ok_def)
  moreover have "cid c \<notin> set live" using assms mem by (auto simp: pool_ok_def)
  moreover have "cid ` set (remove1 c (canvases p)) \<inter> set live = {}"
    using assms sub by (auto simp: pool_ok_def)
  moreover have "list_all (\<lambda>n. n < created p) (map cid (remove1 c (canvases p)) @ cid c # live)"
    using assms sub mem by (auto simp: pool_ok_def list_all_iff)
  ultimately show ?thesis
    using Some r by (auto simp: getCanvas_def pool_ok_def)
qed

lemma returnCanvas_pool_ok:
  assumes "pool_ok p live" and "cid c \<in> set live"
  shows "pool_ok (returnCanvas c p) (remove1 (cid c) live)"
proof -
  have dl: "distinct live" using assms(1) by (simp add: pool_ok_def)
  have "cid c \<notin> set (remove1 (cid c) live)" using dl by simp
  moreover have "cid c \<notin> cid ` set (canvases p)" using assms by (auto simp: pool_ok_def)
  moreover have "set (remove1 (cid c) live) \<subseteq> set live" by (rule set_remove1_subset)
  ultimately show ?thesis
    using assms dl by (auto simp: returnCanvas_def pool_ok_def list_all_iff)
qed

lemma balanced_skip: "balanced (\<lambda>s. ([], s))"
  by (simp add: balanced_def)

lemma balanced_for_each:
  "(\<And>x. x \<in> set xs \<Longrightarrow> balanced (body x)) \<Longrightarrow> balanced (for_each body xs)"
proof (induction xs)
  case Nil
  show ?case by (simp add: balanced_def)
next
  case (Cons x xs)
  have bx: "balanced (body x)" and bxs: "balanced (for_each body xs)"
    using Cons by simp_all
  show ?case
    unfolding balanced_def
  proof (intro allI impI)
    fix st :: draw_state and live assume ok: "pool_ok (provider st) live"
    obtain es1 s1 where b1: "body x st = (es1, s1)" by (cases "body x st")
    obtain es2 s2 where b2: "for_each body xs s1 = (es2, s2)" by (cases "for_each body xs s1")
    have h1: "handout_ok live es1" "live_after live es1 = live" "pool_ok (provider s1) live"
      using bx ok b1 by (auto simp: balanced_def dest!: spec [of _ st])
    have h2: "handout_ok live es2" "live_after live es2 = live" "pool_ok (provider s2) live"
      using bxs h1(3) b2 by (auto simp: balanced_def dest!: spec [of _ s1])
    show "handout_ok live (fst (for_each body (x # xs) st))
          \<and> live_after live (fst (for_each body (x # xs) st)) = live
          \<and> pool_ok (provider (snd (for_each body (x # xs) st))) live"
      using h1 h2 by (simp add: b1 b2 handout_ok_append live_after_append)
  qed
qed

lemma growing_for_each:
  "(\<And>x. x \<in> set xs \<Longrightarrow> growing (body x)) \<Longrightarrow> growing (for_each body xs)"
proof (induction xs)
  case Nil
  show ?case by (simp add: growing_def)
next
  case (Cons x xs)
  have bx: "growing (body x)" and bxs: "growing (for_each body xs)"
    using Cons by simp_all
  show ?case
    unfolding growing_def
  proof (intro allI impI)
    fix st :: draw_state and live assume ok: "pool_ok (provider st) live"
    obtain es1 s1 where b1: "body x st = (es1, s1)" by (cases "body x st")
    obtain es2 s2 where b2: "for_each body xs s1 = (es2, s2)" by (cases "for_each body xs s1")
    have h1: "handout_ok live es1" "pool_ok (provider s1) (live_after live es1)"
      using bx ok b1 by (auto simp: growing_def dest!: spec [of _ st])
    have h2: "handout_ok (live_after live es1) es2"
      "pool_ok (provider s2) (live_after (live_after live es1) es2)"
      using bxs h1(2) b2 by (auto simp: growing_def dest!: spec [of _ s1])
    show "handout_ok live (fst (for_each body (x # xs) st))
          \<and> pool_ok (provider (snd (for_each body (x # xs) st)))
               (live_after live (fst (for_each body (x # xs) st)))"
      using h1 h2 by (simp add: b1 b2 handout_ok_append live_after_append)
  qed
qed


lemma getClipItems_cases:
  "fst (getClipItems (Group i m k b mx cop ch ci)) =
     (case ci of None \<Rightarrow> filter clipMask ch | Some r \<Rightarrow> r)"
  by (cases ci) (simp_all add: clip_scan_filter Let_def)

lemma balanced_guard:
  "(\<And>x. x \<in> set xs \<Longrightarrow> balanced (f x)) \<Longrightarrow>
   balanced (for_each (\<lambda>item s. if P item then f item s else ([], s)) xs)"
proof (rule balanced_for_each)
  fix x assume "\<And>x. x \<in> set xs \<Longrightarrow> balanced (f x)" and "x \<in> set xs"
  then show "balanced (\<lambda>s. if P x then f x s else ([], s))"
    by (cases "P x") (simp_all add: balanced_skip)
qed

lemma draw_pooled_balanced: "balanced (draw_pooled gsb it ctx)"
proof (induction it arbitrary: ctx)
  case (Shape i m k b)
  show ?case by (simp add: balanced_def Shape_draw_def)
next
  case (Group i m k b mx cop ch ci)
  let ?g = "Group i m k b mx cop ch ci"
  let ?clip = "fst (getClipItems ?g)"
  have ch: "\<And>x c. x \<in> set ch \<Longrightarrow> balanced (draw_pooled gsb x c)"
    using Group.IH(1) by blast
  have cl: "\<And>x c. x \<in> set ?clip \<Longrightarrow> balanced (draw_pooled gsb x c)"
    using Group.IH unfolding getClipItems_cases by (cases ci) auto
  have stencil: "\<And>c. balanced (for_each (\<lambda>item. draw_pooled gsb item c) ?clip)"
    by (rule balanced_for_each) (rule cl)
  have regular: "\<And>c. balanced (for_each
      (\<lambda>item s. if \<not> clipMask item then draw_pooled gsb item c s else ([], s)) ch)"
    by (rule balanced_guard) (rule ch)
  show ?case
    unfolding balanced_def
  proof (intro allI impI)
    fix st :: draw_state and live assume ok: "pool_ok (provider st) live"
    let ?goal = "handout_ok live (fst (draw_pooled gsb ?g ctx st))
        \<and> live_after live (fst (draw_pooled gsb ?g ctx st)) = live
        \<and> pool_ok (provider (snd (draw_pooled gsb ?g ctx st))) live"
    show ?goal
    proof (cases "length ?clip \<noteq> 0")
      case False
      then show ?thesis
        using regular [of ctx] ok
        by (simp add: draw_pooled.simps(2) balanced_def)
    next
      case True
      show ?thesis
      proof (cases "rect_width (gsb ?g) = 0 \<or> rect_height (gsb ?g) = 0")
        case True
        then show ?thesis
          using ok \<open>length ?clip \<noteq> 0\<close> by (auto simp: draw_pooled.simps(2) Let_def)
      next
        case False
        let ?off = "point_floor (getTopLeft (gsb ?g))"
        let ?sz = "size_add (size_ceil (getSize (gsb ?g))) (Size 1 1)"
        obtain c p1 where gc: "getCanvas ?sz (provider st) = (c, p1)"
          by (cases "getCanvas ?sz (provider st)")
        let ?st2 = "st\<lparr>offset := ?off, provider := p1\<rparr>"
        let ?c1 = "CanvasContext (cid c)"
        from getCanvas_pool_ok [OF ok, of ?sz] gc
        have fresh: "cid c \<notin> set live" and ok1: "pool_ok p1 (cid c # live)" by simp_all
        obtain es1 st3 where s1:
          "for_each (\<lambda>item. draw_pooled gsb item ?c1) ?clip ?st2 = (es1, st3)"
          by (cases "for_each (\<lambda>item. draw_pooled gsb item ?c1) ?clip ?st2")
        have h1: "handout_ok (cid c # live) es1" "live_after (cid c # live) es1 = cid c # live"
          "pool_ok (provider st3) (cid c # live)"
          using stencil [of ?c1] ok1 s1
          by (auto simp: balanced_def dest!: spec [of _ ?st2])
        obtain es2 st4 where s2:
          "for_each (\<lambda>item s. if \<not> clipMask item then draw_pooled gsb item ?c1 s
                                else ([], s)) ch st3 = (es2, st4)"
          by (cases "for_each (\<lambda>item s. if \<not> clipMask item
                then draw_pooled gsb item ?c1 s else ([], s)) ch st3")
        have h2: "handout_ok (cid c # live) es2" "live_after (cid c # live) es2 = cid c # live"
          "pool_ok (provider st4) (cid c # live)"
          using regular [of ?c1] h1(3) s2
          by (auto simp: balanced_def dest!: spec [of _ st3])
        have ret: "pool_ok (returnCanvas c (provider st4)) live"
          using returnCanvas_pool_ok [OF h2(3), of c] by simp
        have unfolded: "draw_pooled gsb ?g ctx st =
          ([GetCanvas ?sz (cid c), Save ?c1,
            Translate ?c1 (- point_x ?off) (- point_y ?off), ApplyMatrix ?c1 mx]
           @ es1 @ [SetCompositeOperation ?c1 cop] @ es2
           @ [DrawImage ctx ?c1 (point_x ?off) (point_y ?off), Restore ?c1,
              ReturnCanvas (cid c)],
           st4\<lparr>provider := returnCanvas c (provider st4)\<rparr>)"
          using False \<open>length ?clip \<noteq> 0\<close> gc s1 s2
          by (simp add: draw_pooled.simps(2) Let_def)
        show ?thesis
          using fresh h1 h2 ret
          by (simp add: unfolded handout_ok_append live_after_append)
      qed
    qed
  qed
qed


lemma growing_guard:
  "(\<And>x. x \<in> set xs \<Longrightarrow> growing (f x)) \<Longrightarrow>
   growing (for_each (\<lambda>item s. if P item then f item s else ([], s)) xs)"
proof (rule growing_for_each)
  fix x assume "\<And>x. x \<in> set xs \<Longrightarrow> growing (f x)" and "x \<in> set xs"
  then show "growing (\<lambda>s. if P x then f x s else ([], s))"
    by (cases "P x") (simp_all add: growing_def)
qed

lemma draw_shared_growing: "growing (draw_shared gb it ctx)"
proof (induction it arbitrary: ctx)
  case (Shape i m k b)
  show ?case by (simp add: growing_def Shape_draw_def)
next
  case (Group i m k b mx cop ch ci)
  let ?g = "Group i m k b mx cop ch ci"
  let ?clip = "fst (getClipItems ?g)"
  have ch: "\<And>x c. x \<in> set ch \<Longrightarrow> growing (draw_shared gb x c)"
    using Group.IH(1) by blast
  have cl: "\<And>x c. x \<in> set ?clip \<Longrightarrow> growing (draw_shared gb x c)"
    using Group.IH unfolding getClipItems_cases by (cases ci) auto
  have stencil: "\<And>c. growing (for_each (\<lambda>item. draw_shared gb item c) ?clip)"
    by (rule growing_for_each) (rule cl)
  have regular: "\<And>c. growing (for_each
      (\<lambda>item s. if \<not> clipMark item then draw_shared gb item c s else ([], s)) ch)"
    by (rule growing_guard) (rule ch)
  show ?case
    unfolding growing_def
  proof (intro allI impI)
    fix st :: draw_state and live assume ok: "pool_ok (provider st) live"
    show "handout_ok live (fst (draw_shared gb ?g ctx st))
        \<and> pool_ok (provider (snd (draw_shared gb ?g ctx st)))
             (live_after live (fst (draw_shared gb ?g ctx st)))"
    proof (cases "length ?clip \<noteq> 0")
      case False
      then show ?thesis
        using regular [of ctx] ok
        by (simp add: draw_shared.simps(2) growing_def)
    next
      case True
      let ?bounds = "gb ?g"
      obtain c p1 where gc: "getCanvas (getSize ?bounds) (provider st) = (c, p1)"
        by (cases "getCanvas (getSize ?bounds) (provider st)")
      let ?st1 = "st\<lparr>provider := p1\<rparr>"
      let ?c1 = "CanvasContext (cid c)"
      from getCanvas_pool_ok [OF ok, of "getSize ?bounds"] gc
      have fresh: "cid c \<notin> set live" and ok1: "pool_ok p1 (cid c # live)" by simp_all
      obtain es1 st2 where s1:
        "for_each (\<lambda>item. draw_shared gb item ?c1) ?clip ?st1 = (es1, st2)"
        by (cases "for_each (\<lambda>item. draw_shared gb item ?c1) ?clip ?st1")
      have h1: "handout_ok (cid c # live) es1"
        "pool_ok (provider st2) (live_after (cid c # live) es1)"
        using stencil [of ?c1] ok1 s1
        by (auto simp: growing_def dest!: spec [of _ ?st1])
      obtain es2 st3 where s2:
        "for_each (\<lambda>item s. if \<not> clipMark item then draw_shared gb item ?c1 s
                              else ([], s)) ch st2 = (es2, st3)"
        by (cases "for_each (\<lambda>item s. if \<not> clipMark item
              then draw_shared gb item ?c1 s else ([], s)) ch st2")
      have h2: "handout_ok (live_after (cid c # live) es1) es2"
        "pool_ok (provider st3) (live_after (live_after (cid c # live) es1) es2)"
        using regular [of ?c1] h1(2) s2
        by (auto simp: growing_def dest!: spec [of _ st2])
      have unfolded: "draw_shared gb ?g ctx st =
        ([GetCanvas (getSize ?bounds) (cid c), Save ?c1,
          Translate ?c1 (- rect_x ?bounds) (- rect_y ?bounds)]
         @ es1 @ [SetCompositeOperation ?c1 cop] @ es2
         @ [DrawImage ctx ?c1 (rect_x ?bounds) (rect_y ?bounds), Restore ?c1,
            ClearRect ?c1 0 0 (cwidth c + 1) (cheight c + 1)],
         st3)"
        using True gc s1 s2
        by (simp add: draw_shared.simps(2) Let_def)
      show ?thesis
        using fresh h1 h2
        by (simp add: unfolded handout_ok_append live_after_append)
    qed
  qed
qed

lemma live_distinct_prefix:
  "distinct live \<Longrightarrow> handout_ok live es \<Longrightarrow> distinct (live_after live (take n es))"
proof (induction es arbitrary: live n)
  case Nil
  then show ?case by simp
next
  case (Cons e es)
  show ?case
  proof (cases n)
    case 0
    then show ?thesis using Cons.prems by simp
  next
    case (Suc j)
    then show ?thesis using Cons by (cases e) simp_all
  qed
qed

lemma pool_ok_distinct: "pool_ok p live \<Longrightarrow> distinct live"
  by (simp add: pool_ok_def)

text \<open>
  Claim C1.  Take any pool and any list of live canvases that fit together.  During a draw,
  of either version and however deeply clipped groups are nested, every canvas that is
  handed out is not live at that moment, only live canvases are returned, and after every
  prefix of the draw the live canvases are pairwise distinct.
\<close>

theorem C1_live_buffers_distinct:
  assumes "pool_ok (provider st) live"
  shows "handout_ok live (fst (draw_pooled getStrokeBounds it ctx st))
    \<and> distinct (live_after live (take n (fst (draw_pooled getStrokeBounds it ctx st))))
    \<and> handout_ok live (fst (draw_shared getBounds it ctx st))
    \<and> distinct (live_after live (take n (fst (draw_shared getBounds it ctx st))))"
proof -
  have p: "handout_ok live (fst (draw_pooled getStrokeBounds it ctx st))"
    using draw_pooled_balanced [of getStrokeBounds it ctx] assms by (simp add: balanced_def)
  have s: "handout_ok live (fst (draw_shared getBounds it ctx st))"
    using draw_shared_growing [of getBounds it ctx] assms by (simp add: growing_def)
  have d: "distinct live" using assms by (rule pool_ok_distinct)
  show ?thesis
    using p s live_distinct_prefix [OF d p] live_distinct_prefix [OF d s] by simp
qed

text \<open>
  The nested scene drawn from an empty pool: the inner group takes canvas 1 while canvas 0
  of the outer group is still out, and each is returned once.
\<close>

lemma nested_trace_pooled:
  "fst (draw_pooled bounds0 nested_group ViewContext state0) =
   [GetCanvas (Size 22 8) 0, Save (CanvasContext 0),
    Translate (CanvasContext 0) (- 10) (- 5), ApplyMatrix (CanvasContext 0) mx0,
    DrawShape (CanvasContext 0) 1,
    SetCompositeOperation (CanvasContext 0) ''source-in'',
    GetCanvas (Size 22 8) 1, Save (CanvasContext 1),
    Translate (CanvasContext 1) (- 10) (- 5), ApplyMatrix (CanvasContext 1) mx0,
    DrawShape (CanvasContext 1) 4,
    SetCompositeOperation (CanvasContext 1) ''source-in'',
    DrawShape (CanvasContext 1) 5,
    DrawImage (CanvasContext 0) (CanvasContext 1) 10 5,
    Restore (CanvasContext 1), ReturnCanvas 1, DrawShape (CanvasContext 0) 2,
    DrawImage ViewContext (CanvasContext 0) 10 5, Restore (CanvasContext 0),
    ReturnCanvas 0]"
  by (simp add: nested_group_def draw_pooled.simps(2) Shape_draw_def Let_def getCanvas_def
      returnCanvas_def state0_def pool0_def bounds0_def getSize_def getTopLeft_def
      point_floor_def size_ceil_def size_add_def)

lemma nested_trace_shared:
  "fst (draw_shared bounds0 nested_group ViewContext state0) =
   [GetCanvas (Size (203 / 10) 7) 0, Save (CanvasContext 0),
    Translate (CanvasContext 0) (- (104 / 10)) (- (52 / 10)),
    DrawShape (CanvasContext 0) 1,
    SetCompositeOperation (CanvasContext 0) ''source-in'',
    DrawShape (CanvasContext 0) 1,
    GetCanvas (Size (203 / 10) 7) 1, Save (CanvasContext 1),
    Translate (CanvasContext 1) (- (104 / 10)) (- (52 / 10)),
    DrawShape (CanvasContext 1) 4,
    SetCompositeOperation (CanvasContext 1) ''source-in'',
    DrawShape (CanvasContext 1) 4, DrawShape (CanvasContext 1) 5,
    DrawImage (CanvasContext 0) (CanvasContext 1) (104 / 10) (52 / 10),
    Restore (CanvasContext 1), ClearRect (CanvasContext 1) 0 0 (203 / 10 + 1) (7 + 1),
    DrawShape (CanvasContext 0) 2,
    DrawImage ViewContext (CanvasContext 0) (104 / 10) (52 / 10),
    Restore (CanvasContext 0), ClearRect (CanvasContext 0) 0 0 (203 / 10 + 1) (7 + 1)]"
  by (simp add: nested_group_def draw_shared.simps(2) Shape_draw_def Let_def getCanvas_def
      state0_def pool0_def bounds0_def getSize_def)

theorem C1_live_buffers_distinct_witness:
  "pool_ok (provider state0) []
   \<and> handout_ok [] (fst (draw_pooled bounds0 nested_group ViewContext state0))
   \<and> distinct (live_after [] (take 7 (fst (draw_pooled bounds0 nested_group ViewContext state0))))
   \<and> handout_ok [] (fst (draw_shared bounds0 nested_group ViewContext state0))
   \<and> distinct (live_after [] (take 7 (fst (draw_shared bounds0 nested_group ViewContext state0))))"
  using C1_live_buffers_distinct [of state0 "[]" bounds0 nested_group ViewContext 7 bounds0]
  by (simp add: pool_ok_def state0_def pool0_def)

lemma for_each_filter:
  "for_each (\<lambda>item s. if P item then f item s else ([], s)) xs s = for_each f (filter P xs) s"
  by (induction xs arbitrary: s) (simp_all split: prod.splits)

text \<open>
  Claim C2 (it fails on the older version).  The older \<open>draw\<close> tests \<open>item._clipMark\<close>, a
  property no item has, where it means \<open>item._clipMask\<close>: its loop over the children draws
  the clip mask (leaf 1) a second time, after the compositing operation has been set.
\<close>

theorem C2_shared_draws_clip_mask_twice:
  "fst (draw_shared bounds0 clipped_pair ViewContext state0) =
   [GetCanvas (Size (203 / 10) 7) 0, Save (CanvasContext 0),
    Translate (CanvasContext 0) (- (104 / 10)) (- (52 / 10)),
    DrawShape (CanvasContext 0) 1,
    SetCompositeOperation (CanvasContext 0) ''source-in'',
    DrawShape (CanvasContext 0) 1, DrawShape (CanvasContext 0) 2,
    DrawImage ViewContext (CanvasContext 0) (104 / 10) (52 / 10),
    Restore (CanvasContext 0), ClearRect (CanvasContext 0) 0 0 (203 / 10 + 1) (7 + 1)]"
  by (simp add: clipped_pair_def draw_shared.simps(2) Shape_draw_def Let_def getCanvas_def
      state0_def pool0_def bounds0_def getSize_def)

text \<open>
  The newer version tests \<open>item._clipMask\<close>.  With a non-empty clip-item list and bounds
  that are not flat, its draw is: the set-up on the temporary canvas, the clip items, the
  compositing operation, the children that are no clip masks, the copy onto the parent
  context, the return of the canvas.
\<close>

lemma pooled_clipped_draw:
  assumes clip: "length (fst (getClipItems (Group i m k b mx cop ch ci))) \<noteq> 0"
    and w: "rect_width (gsb (Group i m k b mx cop ch ci)) \<noteq> 0"
    and h: "rect_height (gsb (Group i m k b mx cop ch ci)) \<noteq> 0"
    and gc: "getCanvas (size_add (size_ceil (getSize (gsb (Group i m k b mx cop ch ci)))) (Size 1 1))
               (provider st) = (c, p1)"
    and s1: "for_each (\<lambda>item. draw_pooled gsb item (CanvasContext (cid c)))
               (fst (getClipItems (Group i m k b mx cop ch ci)))
               (st\<lparr>offset := point_floor (getTopLeft (gsb (Group i m k b mx cop ch ci))),
                   provider := p1\<rparr>) = (es1, st3)"
    and s2: "for_each (\<lambda>item. draw_pooled gsb item (CanvasContext (cid c)))
               (filter (\<lambda>item. \<not> clipMask item) ch) st3 = (es2, st4)"
  shows "draw_pooled gsb (Group i m k b mx cop ch ci) ctx st =
    ([GetCanvas (size_add (size_ceil (getSize (gsb (Group i m k b mx cop ch ci)))) (Size 1 1)) (cid c),
      Save (CanvasContext (cid c)),
      Translate (CanvasContext (cid c))
        (- point_x (point_floor (getTopLeft (gsb (Group i m k b mx cop ch ci)))))
        (- point_y (point_floor (getTopLeft (gsb (Group i m k b mx cop ch ci))))),
      ApplyMatrix (CanvasContext (cid c)) mx]
     @ es1 @ [SetCompositeOperation (CanvasContext (cid c)) cop] @ es2
     @ [DrawImage ctx (CanvasContext (cid c))
          (point_x (point_floor (getTopLeft (gsb (Group i m k b mx cop ch ci)))))
          (point_y (point_floor (getTopLeft (gsb (Group i m k b mx cop ch ci))))),
        Restore (CanvasContext (cid c)), ReturnCanvas (cid c)],
     st4\<lparr>provider := returnCanvas c (provider st4)\<rparr>)"
  using clip w h gc s1 s2
  by (simp add: draw_pooled.simps(2) Let_def for_each_filter)


lemma flags_carry:
  "(flags AND (h OR c) \<noteq> 0) = (flags AND h \<noteq> 0 \<or> flags AND c \<noteq> (0 :: 32 word))"
  by (simp add: bit.conj_disj_distrib or_eq_0_iff)

text \<open>
  When the cache is absent or holds the clip masks among the children, the two passes split
  the children: first the clip masks, then the others, each in the order of the children.
\<close>

lemma pooled_two_passes:
  assumes cache: "ci = None \<or> ci = Some (filter clipMask ch)"
    and clip: "filter clipMask ch \<noteq> []"
    and w: "rect_width (gsb (Group i m k b mx cop ch ci)) \<noteq> 0"
    and h: "rect_height (gsb (Group i m k b mx cop ch ci)) \<noteq> 0"
    and gc: "getCanvas (size_add (size_ceil (getSize (gsb (Group i m k b mx cop ch ci)))) (Size 1 1))
               (provider st) = (c, p1)"
    and s1: "for_each (\<lambda>item. draw_pooled gsb item (CanvasContext (cid c)))
               (filter clipMask ch)
               (st\<lparr>offset := point_floor (getTopLeft (gsb (Group i m k b mx cop ch ci))),
                   provider := p1\<rparr>) = (es1, st3)"
    and s2: "for_each (\<lambda>item. draw_pooled gsb item (CanvasContext (cid c)))
               (filter (\<lambda>item. \<not> clipMask item) ch) st3 = (es2, st4)"
  shows "draw_pooled gsb (Group i m k b mx cop ch ci) ctx st =
    ([GetCanvas (size_add (size_ceil (getSize (gsb (Group i m k b mx cop ch ci)))) (Size 1 1)) (cid c),
      Save (CanvasContext (cid c)),
      Translate (CanvasContext (cid c))
        (- point_x (point_floor (getTopLeft (gsb (Group i m k b mx cop ch ci)))))
        (- point_y (point_floor (getTopLeft (gsb (Group i m k b mx cop ch ci))))),
      ApplyMatrix (CanvasContext (cid c)) mx]
     @ es1 @ [SetCompositeOperation (CanvasContext (cid c)) cop] @ es2
     @ [DrawImage ctx (CanvasContext (cid c))
          (point_x (point_floor (getTopLeft (gsb (Group i m k b mx cop ch ci)))))
          (point_y (point_floor (getTopLeft (gsb (Group i m k b mx cop ch ci))))),
        Restore (CanvasContext (cid c)), ReturnCanvas (cid c)],
     st4\<lparr>provider := returnCanvas c (provider st4)\<rparr>)"
proof -
  have eq: "fst (getClipItems (Group i m k b mx cop ch ci)) = filter clipMask ch"
    using cache by (auto simp: getClipItems_cases)
  have "length (fst (getClipItems (Group i m k b mx cop ch ci))) \<noteq> 0"
    using clip by (simp add: eq)
  from pooled_clipped_draw [OF this w h gc s1 [folded eq] s2, of ctx]
  show ?thesis .
qed

text \<open>
  Claim C4.  Let a group with a non-empty clip-item list have stroke bounds with left edge
  \<open>x\<close>, top edge \<open>y\<close>, width \<open>w\<close> and height \<open>h\<close>, both not 0.  Its draw asks the pool for a
  canvas of size \<open>(\<lceil>w\<rceil> + 1, \<lceil>h\<rceil> + 1)\<close>, draws its clip items and children with
  \<open>param.offset = (\<lfloor>x\<rfloor>, \<lfloor>y\<rfloor>)\<close> on that canvas translated by \<open>(- \<lfloor>x\<rfloor>, - \<lfloor>y\<rfloor>)\<close>, and
  copies the canvas onto the parent context at \<open>(\<lfloor>x\<rfloor>, \<lfloor>y\<rfloor>)\<close>.
\<close>

theorem C4_offset_floored_size_ceiled:
  assumes "length (fst (getClipItems (Group i m k b mx cop ch ci))) \<noteq> 0"
    and "getStrokeBounds (Group i m k b mx cop ch ci) = Rectangle x y w h"
    and "w \<noteq> 0" and "h \<noteq> 0"
  shows "\<exists>c p1 es1 st3 es2 st4.
      getCanvas (Size (of_int \<lceil>w\<rceil> + 1) (of_int \<lceil>h\<rceil> + 1)) (provider st) = (c, p1)
      \<and> for_each (\<lambda>item. draw_pooled getStrokeBounds item (CanvasContext (cid c)))
           (fst (getClipItems (Group i m k b mx cop ch ci)))
           (st\<lparr>offset := Point (of_int \<lfloor>x\<rfloor>) (of_int \<lfloor>y\<rfloor>), provider := p1\<rparr>) = (es1, st3)
      \<and> for_each (\<lambda>item. draw_pooled getStrokeBounds item (CanvasContext (cid c)))
           (filter (\<lambda>item. \<not> clipMask item) ch) st3 = (es2, st4)
      \<and> draw_pooled getStrokeBounds (Group i m k b mx cop ch ci) ctx st =
          ([GetCanvas (Size (of_int \<lceil>w\<rceil> + 1) (of_int \<lceil>h\<rceil> + 1)) (cid c),
            Save (CanvasContext (cid c)),
            Translate (CanvasContext (cid c)) (- of_int \<lfloor>x\<rfloor>) (- of_int \<lfloor>y\<rfloor>),
            ApplyMatrix (CanvasContext (cid c)) mx]
           @ es1 @ [SetCompositeOperation (CanvasContext (cid c)) cop] @ es2
           @ [DrawImage ctx (CanvasContext (cid c)) (of_int \<lfloor>x\<rfloor>) (of_int \<lfloor>y\<rfloor>),
              Restore (CanvasContext (cid c)), ReturnCanvas (cid c)],
           st4\<lparr>provider := returnCanvas c (provider st4)\<rparr>)"
proof -
  let ?g = "Group i m k b mx cop ch ci"
  have sz: "size_add (size_ceil (getSize (getStrokeBounds ?g))) (Size 1 1)
            = Size (of_int \<lceil>w\<rceil> + 1) (of_int \<lceil>h\<rceil> + 1)"
    using assms(2) by (simp add: size_add_def size_ceil_def getSize_def)
  have off: "point_floor (getTopLeft (getStrokeBounds ?g)) = Point (of_int \<lfloor>x\<rfloor>) (of_int \<lfloor>y\<rfloor>)"
    using assms(2) by (simp add: point_floor_def getTopLeft_def)
  obtain c p1 where gc:
    "getCanvas (Size (of_int \<lceil>w\<rceil> + 1) (of_int \<lceil>h\<rceil> + 1)) (provider st) = (c, p1)"
    by (cases "getCanvas (Size (of_int \<lceil>w\<rceil> + 1) (of_int \<lceil>h\<rceil> + 1)) (provider st)")
  obtain es1 st3 where s1:
    "for_each (\<lambda>item. draw_pooled getStrokeBounds item (CanvasContext (cid c)))
       (fst (getClipItems ?g))
       (st\<lparr>offset := Point (of_int \<lfloor>x\<rfloor>) (of_int \<lfloor>y\<rfloor>), provider := p1\<rparr>) = (es1, st3)"
    by (cases "for_each (\<lambda>item. draw_pooled getStrokeBounds item (CanvasContext (cid c)))
       (fst (getClipItems ?g))
       (st\<lparr>offset := Point (of_int \<lfloor>x\<rfloor>) (of_int \<lfloor>y\<rfloor>), provider := p1\<rparr>)")
  obtain es2 st4 where s2:
    "for_each (\<lambda>item. draw_pooled getStrokeBounds item (CanvasContext (cid c)))
       (filter (\<lambda>item. \<not> clipMask item) ch) st3 = (es2, st4)"
    by (cases "for_each (\<lambda>item. draw_pooled getStrokeBounds item (CanvasContext (cid c)))
       (filter (\<lambda>item. \<not> clipMask item) ch) st3")
  have w: "rect_width (getStrokeBounds ?g) \<noteq> 0" and h: "rect_height (getStrokeBounds ?g) \<noteq> 0"
    using assms(2-4) by simp_all
  have "draw_pooled getStrokeBounds ?g ctx st =
          ([GetCanvas (Size (of_int \<lceil>w\<rceil> + 1) (of_int \<lceil>h\<rceil> + 1)) (cid c),
            Save (CanvasContext (cid c)),
            Translate (CanvasContext (cid c)) (- of_int \<lfloor>x\<rfloor>) (- of_int \<lfloor>y\<rfloor>),
            ApplyMatrix (CanvasContext (cid c)) mx]
           @ es1 @ [SetCompositeOperation (CanvasContext (cid c)) cop] @ es2
           @ [DrawImage ctx (CanvasContext (cid c)) (of_int \<lfloor>x\<rfloor>) (of_int \<lfloor>y\<rfloor>),
              Restore (CanvasContext (cid c)), ReturnCanvas (cid c)],
           st4\<lparr>provider := returnCanvas c (provider st4)\<rparr>)"
    using pooled_clipped_draw [of i m k b mx cop ch ci getStrokeBounds st c p1 es1 st3 es2 st4 ctx]
      assms(1) w h gc s1 s2
    by (simp add: sz off)
  then show ?thesis using gc s1 s2 by blast
qed

text \<open>Bounds at \<open>(10.4, 5.2)\<close> of size \<open>20.3\<close> by \<open>7\<close>: offset \<open>(10, 5)\<close>, canvas \<open>22\<close> by \<open>8\<close>.\<close>

theorem C4_offset_floored_size_ceiled_witness:
  "length (fst (getClipItems clipped_pair)) \<noteq> 0
   \<and> bounds0 clipped_pair = Rectangle (104 / 10) (52 / 10) (203 / 10) 7
   \<and> draw_pooled bounds0 clipped_pair ViewContext state0 =
       ([GetCanvas (Size 22 8) 0, Save (CanvasContext 0),
         Translate (CanvasContext 0) (- 10) (- 5), ApplyMatrix (CanvasContext 0) mx0,
         DrawShape (CanvasContext 0) 1,
         SetCompositeOperation (CanvasContext 0) ''source-in'',
         DrawShape (CanvasContext 0) 2,
         DrawImage ViewContext (CanvasContext 0) 10 5, Restore (CanvasContext 0),
         ReturnCanvas 0],
        \<lparr>offset = Point 10 5,
           provider = \<lparr>canvases = [\<lparr>cid = 0, cwidth = 22, cheight = 8\<rparr>], created = 1\<rparr>\<rparr>)"
  using C4_offset_floored_size_ceiled [of 0 False False None mx0 "''source-in''"
      "[Shape 1 True False None, Shape 2 False False None]" None bounds0
      "104 / 10" "52 / 10" "203 / 10" 7 state0 ViewContext]
  by (simp add: clipped_pair_def bounds0_def getCanvas_def returnCanvas_def state0_def pool0_def
      Shape_draw_def)

text \<open>
  Claim C6.  When a group with a non-empty clip-item list has stroke bounds of width 0 or
  height 0, its draw emits no event (nothing is drawn, no canvas is asked for) and leaves
  \<open>param.offset\<close> and the pool as they were.
\<close>

theorem C6_zero_area_draws_nothing:
  assumes "length (fst (getClipItems (Group i m k b mx cop ch ci))) \<noteq> 0"
    and "rect_width (getStrokeBounds (Group i m k b mx cop ch ci)) = 0
         \<or> rect_height (getStrokeBounds (Group i m k b mx cop ch ci)) = 0"
  shows "draw_pooled getStrokeBounds (Group i m k b mx cop ch ci) ctx st = ([], st)"
  using assms by (auto simp: draw_pooled.simps(2) Let_def)

text \<open>A clipped group with bounds of width 0.\<close>

theorem C6_zero_area_draws_nothing_witness:
  "length (fst (getClipItems clipped_pair)) \<noteq> 0
   \<and> rect_width (flat_bounds clipped_pair) = 0
   \<and> draw_pooled flat_bounds clipped_pair ViewContext state0 = ([], state0)"
  using C6_zero_area_draws_nothing [of 0 False False None mx0 "''source-in''"
      "[Shape 1 True False None, Shape 2 False False None]" None flat_bounds ViewContext state0]
  by (simp add: clipped_pair_def flat_bounds_def)


lemma Group_changed_clears:
  "flags AND (HIERARCHY cf OR CLIPPING cf) \<noteq> 0 \<Longrightarrow>
   Group_changed cf flags (Group i m k b mx cop ch ci) = Group i m k None mx cop ch None"
  by (simp add: Group_changed_def flags_carry bit.conj_disj_distrib or_eq_0_iff)

lemma changed_keeps:
  "clipMask (changed cf flags it) = clipMask it"
  "ident (changed cf flags it) = ident it"
  by (cases it; simp add: Group_changed_def Let_def)+

lemma set_clipMask_sets:
  "clipMask (set_clipMask v it) = v"
  "ident (set_clipMask v it) = ident it"
  by (cases it; simp)+

text \<open>
  Claim C7.  A second \<open>_getClipItems()\<close> right after a first returns the same array and
  leaves the group as the first call left it; the array is the one held in the cache.
\<close>

theorem C7_getClipItems_stable:
  "getClipItems (snd (getClipItems (Group i m k b mx cop ch ci))) =
     (fst (getClipItems (Group i m k b mx cop ch ci)),
      snd (getClipItems (Group i m k b mx cop ch ci)))
   \<and> clipItems (snd (getClipItems (Group i m k b mx cop ch ci))) =
       Some (fst (getClipItems (Group i m k b mx cop ch ci)))"
  by (cases ci) simp_all

text \<open>
  Claim C3.  When \<open>_changed\<close> is called on a group with flags that carry HIERARCHY or
  CLIPPING, the clip-item cache is gone afterwards, and the next \<open>_getClipItems()\<close> returns
  the children of the group that have \<open>_clipMask\<close> set, in the order of the children, and
  nothing else.  After a clip mask has been added as a child, \<open>isClipped()\<close> is true.
\<close>

theorem C3_changed_clears_clip_items:
  "(flags AND HIERARCHY cf \<noteq> 0 \<or> flags AND CLIPPING cf \<noteq> 0 \<longrightarrow>
      clipItems (Group_changed cf flags (Group i m k b mx cop ch ci)) = None
      \<and> fst (getClipItems (Group_changed cf flags (Group i m k b mx cop ch ci)))
          = filter clipMask ch
      \<and> set (fst (getClipItems (Group_changed cf flags (Group i m k b mx cop ch ci))))
          \<subseteq> set ch)
   \<and> (HIERARCHY cf \<noteq> 0 \<and> clipMask child \<longrightarrow>
        fst (isClipped (addChild cf child (Group i m k b mx cop ch ci))))"
proof (intro conjI impI)
  assume "flags AND HIERARCHY cf \<noteq> 0 \<or> flags AND CLIPPING cf \<noteq> 0"
  then have f: "flags AND (HIERARCHY cf OR CLIPPING cf) \<noteq> 0"
    by (simp add: flags_carry)
  show "clipItems (Group_changed cf flags (Group i m k b mx cop ch ci)) = None"
    by (simp add: Group_changed_clears [OF f])
  show "fst (getClipItems (Group_changed cf flags (Group i m k b mx cop ch ci)))
          = filter clipMask ch"
    by (simp add: Group_changed_clears [OF f] clip_scan_filter)
  show "set (fst (getClipItems (Group_changed cf flags (Group i m k b mx cop ch ci))))
          \<subseteq> set ch"
    by (simp add: Group_changed_clears [OF f] clip_scan_filter)
next
  assume a: "HIERARCHY cf \<noteq> 0 \<and> clipMask child"
  then have h: "HIERARCHY cf AND (HIERARCHY cf OR CLIPPING cf) \<noteq> 0"
    by (simp add: flags_carry)
  show "fst (isClipped (addChild cf child (Group i m k b mx cop ch ci)))"
    using a by (simp add: Group_changed_clears [OF h] clip_scan_filter isClipped_def)
qed

text \<open>
  An unclipped group whose cache is filled: a HIERARCHY notification clears the cache, and
  adding a clip mask makes the group clipped.
\<close>

theorem C3_changed_clears_clip_items_witness:
  "2 AND HIERARCHY flags0 \<noteq> 0
   \<and> HIERARCHY flags0 \<noteq> 0
   \<and> clipMask (Shape 3 True False None)
   \<and> \<not> fst (isClipped cached_pair)
   \<and> clipItems (Group_changed flags0 2 cached_pair) = None
   \<and> fst (getClipItems (Group_changed flags0 2 cached_pair)) = []
   \<and> fst (isClipped (addChild flags0 (Shape 3 True False None) cached_pair))"
  using C3_changed_clears_clip_items [of 2 flags0 0 False False None mx0 "''source-in''"
      "[Shape 1 False False None, Shape 2 False False None]" "Some []"
      "Shape 3 True False None"]
  by (simp add: cached_pair_def flags0_def isClipped_def)

text \<open>
  What becomes of the caches: the CLIPPING notification that the first child emits reaches
  the group, whose \<open>_changed\<close> deletes the clip-item cache.
\<close>

lemma setClipped_invalidates_caches:
  assumes "CLIPPING cf \<noteq> 0"
  shows "setClipped cf flag (Group i m k b mx cop (child # rest) ci) =
           Group i m k None mx cop (setClipMask cf flag child # rest) None"
proof -
  have "CLIPPING cf AND (HIERARCHY cf OR CLIPPING cf) \<noteq> 0"
    using assms by (simp add: flags_carry)
  then show ?thesis by (simp add: Group_changed_clears)
qed

lemma persistent_changed: "persistent (changed cf flags it) = persistent it"
  by (cases it) (simp_all add: Group_changed_def Let_def)

lemma persistent_Group_changed:
  "persistent (Group_changed cf flags (Group i m k b mx cop ch ci)) =
   Group i m k None mx cop ch None"
  by (simp add: Group_changed_def Let_def)

text \<open>
  Claim C5.  On a group with at least one child, \<open>setClipped(flag)\<close> sets \<open>_clipMask\<close> of
  the first child to the flag and changes nothing else of that child; the other children
  and their order are as before; and the state of the group itself is what it was, with
  the first child replaced.  State is taken apart from the caches, which are derived from
  it.  On a group without children \<open>setClipped\<close> changes nothing at all.
\<close>

theorem C5_setClipped_first_child_only:
  "children (setClipped cf flag (Group i m k b mx cop (child # rest) ci)) =
     setClipMask cf flag child # rest
   \<and> clipMask (setClipMask cf flag child) = flag
   \<and> persistent (setClipMask cf flag child) = persistent (set_clipMask flag child)
   \<and> persistent (setClipped cf flag (Group i m k b mx cop (child # rest) ci)) =
       persistent (Group i m k b mx cop (setClipMask cf flag child # rest) ci)
   \<and> setClipped cf flag (Group i m k b mx cop [] ci) = Group i m k b mx cop [] ci"
proof (intro conjI)
  show "children (setClipped cf flag (Group i m k b mx cop (child # rest) ci)) =
          setClipMask cf flag child # rest"
    by (simp add: Group_changed_def Let_def)
  show "clipMask (setClipMask cf flag child) = flag"
    by (simp add: setClipMask_def changed_keeps set_clipMask_sets)
  show "persistent (setClipMask cf flag child) = persistent (set_clipMask flag child)"
    by (simp add: setClipMask_def persistent_changed)
  show "persistent (setClipped cf flag (Group i m k b mx cop (child # rest) ci)) =
          persistent (Group i m k b mx cop (setClipMask cf flag child # rest) ci)"
    by (simp add: persistent_Group_changed)
  show "setClipped cf flag (Group i m k b mx cop [] ci) = Group i m k b mx cop [] ci"
    by simp
qed

text \<open>
  \<open>setClipped(true)\<close> on a group of two leaves whose clip items have been read, and on a
  group without children.
\<close>

theorem C5_setClipped_first_child_only_witness:
  "children (setClipped flags0 True cached_pair) =
     [Shape 1 True False None, Shape 2 False False None]
   \<and> persistent (setClipped flags0 True cached_pair) =
       Group 0 False False None mx0 ''source-in''
         [Shape 1 True False None, Shape 2 False False None] None
   \<and> setClipped flags0 True (Group 0 False False None mx0 ''source-in'' [] (Some [])) =
       Group 0 False False None mx0 ''source-in'' [] (Some [])"
  using C5_setClipped_first_child_only [of flags0 True 0 False False None mx0 "''source-in''"
      "Shape 1 False False None" "[Shape 2 False False None]" "Some []"]
  by (simp add: cached_pair_def flags0_def setClipMask_def)

text \<open>
  Claim C8.  \<open>setClipped(flag)\<close> changes the first child, if there is one, and no other.  So when the first
  child is no clip mask and a later child is one, the group is still clipped after
  \<open>setClipped(false)\<close>.
\<close>

theorem C8_setClipped_first_child_policy:
  "children (setClipped cf flag (Group i m k b mx cop (child # rest) ci)) =
     setClipMask cf flag child # rest
   \<and> children (setClipped cf flag (Group i m k b mx cop [] ci)) = []
   \<and> (CLIPPING cf \<noteq> 0 \<and> \<not> clipMask child \<and> filter clipMask rest \<noteq> [] \<longrightarrow>
        fst (isClipped (setClipped cf False (Group i m k b mx cop (child # rest) ci))))"
proof (intro conjI impI)
  show "children (setClipped cf flag (Group i m k b mx cop (child # rest) ci)) =
          setClipMask cf flag child # rest"
    by (simp add: Group_changed_def Let_def)
next
  show "children (setClipped cf flag (Group i m k b mx cop [] ci)) = []"
    by simp
next
  assume a: "CLIPPING cf \<noteq> 0 \<and> \<not> clipMask child \<and> filter clipMask rest \<noteq> []"
  then have c: "CLIPPING cf AND (HIERARCHY cf OR CLIPPING cf) \<noteq> 0"
    by (simp add: flags_carry)
  have "\<not> clipMask (setClipMask cf False child)"
    by (simp add: setClipMask_def changed_keeps set_clipMask_sets)
  then show "fst (isClipped (setClipped cf False (Group i m k b mx cop (child # rest) ci)))"
    using a by (simp add: Group_changed_clears [OF c] isClipped_def clip_scan_filter)
qed

text \<open>A group whose second child is its only clip mask.\<close>

theorem C8_setClipped_first_child_policy_witness:
  "CLIPPING flags0 \<noteq> 0
   \<and> \<not> clipMask (Shape 1 False False None)
   \<and> filter clipMask [Shape 2 True False None] \<noteq> []
   \<and> fst (isClipped late_mask)
   \<and> children (setClipped flags0 False late_mask) =
       [Shape 1 False False None, Shape 2 True False None]
   \<and> fst (isClipped (setClipped flags0 False late_mask))"
  using C8_setClipped_first_child_policy [of flags0 False 0 False False None mx0 "''source-in''"
      "Shape 1 False False None" "[Shape 2 True False None]" "Some [Shape 2 True False None]"]
  by (simp add: late_mask_def flags0_def setClipMask_def isClipped_def)

end
